theory Spec2Isabelle
  imports Complex_Main "HOL-Library.Product_Lexorder" "HOL-Library.AList"
begin

section \<open>Errors and array access\<close>

text \<open>
  The exceptions the modelled Python code can raise.  Every function that can raise
  returns a sum: \<open>Inl\<close> is the exception, \<open>Inr\<close> the returned value.
\<close>

datatype error =
    IndexError
  | KeyError
  | ValueError
  | AssertionError
  | AttributeError
  | InvalidArgumentError
  | ConfigError string

text \<open>
  \<open>a[i]\<close> on a one-dimensional numpy array for an index that is known to be
  non-negative at the call site: out of range raises \<open>IndexError\<close>.
\<close>

definition np_get :: "'a list \<Rightarrow> nat \<Rightarrow> error + 'a" where
  "np_get xs i = (if i < length xs then Inr (xs ! i) else Inl IndexError)"

definition ebind :: "error + 'a \<Rightarrow> ('a \<Rightarrow> error + 'b) \<Rightarrow> error + 'b" where
  "ebind m f = (case m of Inl e \<Rightarrow> Inl e | Inr x \<Rightarrow> f x)"

text \<open>\<open>a[i, j]\<close> on a two-dimensional numpy array, both indices non-negative.\<close>

definition np_get2 :: "'a list list \<Rightarrow> nat \<Rightarrow> nat \<Rightarrow> error + 'a" where
  "np_get2 m i j = ebind (np_get m i) (\<lambda>row. np_get row j)"

section \<open>Floating-point values\<close>

text \<open>
  A float64 of the tensor library is modelled as a real number or one of the special
  values the pipeline produces on purpose (\<open>log 0 = -inf\<close> masks a score) or by
  arithmetic on them.  Rounding is not modelled: finite arithmetic is exact.
\<close>

datatype f64 = NaN | NInf | Fin real | PInf

text \<open>The comparison \<open>x <= y\<close> of IEEE 754: false as soon as one side is NaN.\<close>

fun f64_le :: "f64 \<Rightarrow> f64 \<Rightarrow> bool" where
  "f64_le NaN y = False"
| "f64_le x NaN = False"
| "f64_le NInf y = True"
| "f64_le x PInf = True"
| "f64_le (Fin a) (Fin b) = (a \<le> b)"
| "f64_le (Fin a) NInf = False"
| "f64_le PInf y = False"

text \<open>
  Addition, negation, logarithm and exponential with the special values of IEEE 754
  (\<open>inf + -inf\<close> and the logarithm of a negative number are NaN, \<open>log 0 = -inf\<close>,
  \<open>exp -inf = 0\<close>).
\<close>

fun f64_add :: "f64 \<Rightarrow> f64 \<Rightarrow> f64" where
  "f64_add NaN y = NaN"
| "f64_add x NaN = NaN"
| "f64_add PInf NInf = NaN"
| "f64_add NInf PInf = NaN"
| "f64_add PInf y = PInf"
| "f64_add x PInf = PInf"
| "f64_add NInf y = NInf"
| "f64_add x NInf = NInf"
| "f64_add (Fin a) (Fin b) = Fin (a + b)"

fun f64_neg :: "f64 \<Rightarrow> f64" where
  "f64_neg NaN = NaN"
| "f64_neg NInf = PInf"
| "f64_neg PInf = NInf"
| "f64_neg (Fin a) = Fin (- a)"

definition f64_sub :: "f64 \<Rightarrow> f64 \<Rightarrow> f64" where
  "f64_sub x y = f64_add x (f64_neg y)"

fun f64_log :: "f64 \<Rightarrow> f64" where
  "f64_log NaN = NaN"
| "f64_log NInf = NaN"
| "f64_log PInf = PInf"
| "f64_log (Fin a) = (if a < 0 then NaN else if a = 0 then NInf else Fin (ln a))"

fun f64_exp :: "f64 \<Rightarrow> f64" where
  "f64_exp NaN = NaN"
| "f64_exp NInf = Fin 0"
| "f64_exp PInf = PInf"
| "f64_exp (Fin a) = Fin (exp a)"

text \<open>\<open>tf.cast(b, tf.float64)\<close> of a boolean.\<close>

definition f64_of_bool :: "bool \<Rightarrow> f64" where
  "f64_of_bool b = (if b then Fin 1 else Fin 0)"

text \<open>\<open>tf.reduce_sum\<close> and \<open>tf.reduce_logsumexp\<close> over one row.\<close>

definition reduce_sum :: "f64 list \<Rightarrow> f64" where
  "reduce_sum xs = foldr f64_add xs (Fin 0)"

definition reduce_logsumexp :: "f64 list \<Rightarrow> f64" where
  "reduce_logsumexp xs = f64_log (reduce_sum (map f64_exp xs))"

section \<open>Greedy decoding\<close>

text \<open>
  \<open>np.argmax\<close> on one row: the index of the first occurrence of the maximum, a NaN
  counting as the maximum; an empty row raises \<open>ValueError\<close>.  The loop keeps the
  running maximum \<open>mp\<close> and its index \<open>mi\<close>.
\<close>

fun argmax_loop :: "f64 \<Rightarrow> nat \<Rightarrow> nat \<Rightarrow> f64 list \<Rightarrow> nat" where
  "argmax_loop mp mi i [] = mi"
| "argmax_loop mp mi i (x # xs) =
     (if mp = NaN then mi
      else if \<not> f64_le x mp then argmax_loop x i (Suc i) xs
      else argmax_loop mp mi (Suc i) xs)"

definition np_argmax :: "f64 list \<Rightarrow> error + nat" where
  "np_argmax xs = (case xs of [] \<Rightarrow> Inl ValueError | x # rest \<Rightarrow> Inr (argmax_loop x 0 1 rest))"

text \<open>
  What "the highest-scoring slot" of a row is for \<open>np.argmax\<close>: the first NaN if there
  is one, and otherwise the first slot that no slot exceeds.
\<close>

definition highest_scoring_slot :: "f64 list \<Rightarrow> nat \<Rightarrow> bool" where
  "highest_scoring_slot row a =
     (a < length row
      \<and> (row ! a = NaN \<or> (\<forall>k < length row. f64_le (row ! k) (row ! a)))
      \<and> (\<forall>k < a. row ! k \<noteq> NaN \<and> \<not> f64_le (row ! a) (row ! k)))"

text \<open>\<open>np.argmax(antecedent_scores, axis=1)\<close>: one index per row of the matrix.\<close>

fun np_argmax_axis1 :: "f64 list list \<Rightarrow> error + nat list" where
  "np_argmax_axis1 [] = Inr []"
| "np_argmax_axis1 (row # rows) =
     ebind (np_argmax row) (\<lambda>a. ebind (np_argmax_axis1 rows) (\<lambda>as. Inr (a # as)))"

text \<open>
  The loop of \<open>CorefModel.get_predicted_antecedents\<close> over
  \<open>enumerate(np.argmax(antecedent_scores, axis=1) - 1)\<close>: \<open>i\<close> is the mention, \<open>am\<close> the
  argmax of its row, \<open>index = am - 1\<close>.
\<close>

fun predicted_loop :: "int list list \<Rightarrow> nat \<Rightarrow> nat list \<Rightarrow> error + int list" where
  "predicted_loop antecedents i [] = Inr []"
| "predicted_loop antecedents i (am # rest) =
     (if int am - 1 < 0
      then ebind (predicted_loop antecedents (Suc i) rest) (\<lambda>ps. Inr (- 1 # ps))
      else ebind (np_get2 antecedents i (am - 1)) (\<lambda>a.
           ebind (predicted_loop antecedents (Suc i) rest) (\<lambda>ps. Inr (a # ps))))"

definition get_predicted_antecedents :: "int list list \<Rightarrow> f64 list list \<Rightarrow> error + int list" where
  "get_predicted_antecedents antecedents antecedent_scores =
     ebind (np_argmax_axis1 antecedent_scores) (predicted_loop antecedents 0)"

text \<open>
  The state of the loop of \<open>CorefModel.get_predicted_clusters\<close>: the dictionary
  \<open>mention_to_predicted\<close> (an association list in insertion order, as a Python dict
  is) and the list \<open>predicted_clusters\<close>.  A mention is its span \<open>(start, end)\<close>.
\<close>

type_synonym mention = "int \<times> int"

type_synonym cluster_state = "(mention \<times> nat) list \<times> mention list list"

fun clusters_loop ::
  "int list \<Rightarrow> int list \<Rightarrow> nat \<Rightarrow> int list \<Rightarrow> cluster_state \<Rightarrow> error + cluster_state" where
  "clusters_loop mention_starts mention_ends i [] st = Inr st"
| "clusters_loop mention_starts mention_ends i (predicted_index # rest) (mention_to_predicted, predicted_clusters) =
     (if predicted_index < 0
      then clusters_loop mention_starts mention_ends (Suc i) rest (mention_to_predicted, predicted_clusters)
      else if \<not> int i > predicted_index then Inl AssertionError
      else
        ebind (np_get mention_starts (nat predicted_index)) (\<lambda>s.
        ebind (np_get mention_ends (nat predicted_index)) (\<lambda>e.
          let predicted_antecedent = (s, e);
              (predicted_cluster, clusters1, dict1) =
                (case map_of mention_to_predicted predicted_antecedent of
                   Some c \<Rightarrow> (c, predicted_clusters, mention_to_predicted)
                 | None \<Rightarrow>
                     (length predicted_clusters,
                      predicted_clusters @ [[predicted_antecedent]],
                      AList.update predicted_antecedent (length predicted_clusters) mention_to_predicted))
          in
            ebind (np_get mention_starts i) (\<lambda>s'.
            ebind (np_get mention_ends i) (\<lambda>e'.
              let mention = (s', e') in
              if predicted_cluster < length clusters1
              then clusters_loop mention_starts mention_ends (Suc i) rest
                     (AList.update mention predicted_cluster dict1,
                      clusters1[predicted_cluster := clusters1 ! predicted_cluster @ [mention]])
              else Inl IndexError)))))"

text \<open>
  \<open>CorefModel.get_predicted_clusters\<close>: the loop from the empty dictionary and the empty
  list, then every dictionary entry is redirected from the cluster's index to the
  cluster itself (\<open>predicted_clusters[i]\<close> raises \<open>IndexError\<close> out of range).
\<close>

fun resolve_clusters :: "mention list list \<Rightarrow> (mention \<times> nat) list \<Rightarrow> error + (mention \<times> mention list) list" where
  "resolve_clusters predicted_clusters [] = Inr []"
| "resolve_clusters predicted_clusters ((m, i) # rest) =
     ebind (np_get predicted_clusters i) (\<lambda>c.
     ebind (resolve_clusters predicted_clusters rest) (\<lambda>d. Inr ((m, c) # d)))"

definition get_predicted_clusters ::
  "int list \<Rightarrow> int list \<Rightarrow> int list \<Rightarrow> error + (mention list list \<times> (mention \<times> mention list) list)" where
  "get_predicted_clusters mention_starts mention_ends predicted_antecedents =
     ebind (clusters_loop mention_starts mention_ends 0 predicted_antecedents ([], [])) (\<lambda>(mention_to_predicted, predicted_clusters).
     ebind (resolve_clusters predicted_clusters mention_to_predicted) (\<lambda>d.
       Inr (predicted_clusters, d)))"

text \<open>
  The tail of \<open>CorefModel.__call__\<close>: the two decoding steps on the tensors the session
  returned.
\<close>

definition decode ::
  "int list \<Rightarrow> int list \<Rightarrow> int list list \<Rightarrow> f64 list list \<Rightarrow> error + (mention list list \<times> (mention \<times> mention list) list)" where
  "decode mention_starts mention_ends antecedents antecedent_scores =
     ebind (get_predicted_antecedents antecedents antecedent_scores)
       (get_predicted_clusters mention_starts mention_ends)"

text \<open>
  The part of the loop invariant of \<open>get_predicted_clusters\<close> that keeps
  \<open>predicted_clusters[predicted_cluster]\<close> in range: every cluster index stored in the
  dictionary is an index of the list.
\<close>

definition dict_in_range :: "cluster_state \<Rightarrow> bool" where
  "dict_in_range st = (\<forall>(m, c) \<in> set (fst st). c < length (snd st))"

text \<open>The span of mention \<open>i\<close>.\<close>

definition mention_at :: "int list \<Rightarrow> int list \<Rightarrow> nat \<Rightarrow> mention" where
  "mention_at mention_starts mention_ends i = (mention_starts ! i, mention_ends ! i)"

text \<open>
  The inputs the decoding is meant for: one start and one end per prediction, no span
  listed twice, and every prediction strictly earlier than its mention (or negative).
\<close>

definition decodable :: "int list \<Rightarrow> int list \<Rightarrow> int list \<Rightarrow> bool" where
  "decodable ms me preds =
     (length ms = length preds \<and> length me = length preds \<and> distinct (zip ms me)
      \<and> (\<forall>k < length preds. preds ! k < int k))"

text \<open>
  The mentions the first \<open>k\<close> iterations of the loop of \<open>get_predicted_clusters\<close>
  touch: those with a predicted antecedent, and those antecedents.
\<close>

definition linked :: "int list \<Rightarrow> int list \<Rightarrow> int list \<Rightarrow> nat \<Rightarrow> mention set" where
  "linked ms me preds k =
     {mention_at ms me i | i. i < k \<and> 0 \<le> preds ! i}
     \<union> {mention_at ms me (nat (preds ! i)) | i. i < k \<and> 0 \<le> preds ! i}"

text \<open>
  The loop invariant of \<open>get_predicted_clusters\<close> after \<open>k\<close> iterations: the clusters
  hold the touched mentions, each once; the dictionary has exactly them as keys, each
  mapped to the index of the cluster that holds it; and every mention processed so far
  shares a cluster with its antecedent.
\<close>

definition decode_inv :: "int list \<Rightarrow> int list \<Rightarrow> int list \<Rightarrow> nat \<Rightarrow> cluster_state \<Rightarrow> bool" where
  "decode_inv ms me preds k st =
     (distinct (concat (snd st))
      \<and> set (concat (snd st)) = linked ms me preds k
      \<and> fst ` set (fst st) = set (concat (snd st))
      \<and> distinct (map fst (fst st))
      \<and> (\<forall>(m, c) \<in> set (fst st). c < length (snd st) \<and> m \<in> set (snd st ! c))
      \<and> (\<forall>i < k. 0 \<le> preds ! i \<longrightarrow>
            (\<exists>c < length (snd st). mention_at ms me i \<in> set (snd st ! c)
                \<and> mention_at ms me (nat (preds ! i)) \<in> set (snd st ! c))))"

section \<open>Tensorizing a document\<close>

text \<open>
  Modelled from the spec: \<open>custom_layers.flatten\<close> is not among the sources; the spec
  speaks of the "flattened token sequence" of a nested sequence, which is taken as the
  concatenation of the sublists in order.
\<close>

definition flatten :: "'a list list \<Rightarrow> 'a list" where
  "flatten l = concat l"

text \<open>A list comprehension whose element expression can raise: the first exception wins.\<close>

fun emap :: "('a \<Rightarrow> error + 'b) \<Rightarrow> 'a list \<Rightarrow> error + 'b list" where
  "emap f [] = Inr []"
| "emap f (x # xs) = ebind (f x) (\<lambda>y. ebind (emap f xs) (\<lambda>ys. Inr (y # ys)))"

text \<open>\<open>max(...)\<close> of Python over a sequence: \<open>ValueError\<close> on the empty one.\<close>

fun py_max :: "nat list \<Rightarrow> error + nat" where
  "py_max [] = Inl ValueError"
| "py_max (x # xs) = Inr (fold max xs x)"

text \<open>
  \<open>{x: i for i, x in enumerate(xs)}\<close>: the entries are stored one after the other, so
  a key that occurs twice keeps its first position and its last index.
\<close>

definition dict_of_enumerate :: "'k list \<Rightarrow> ('k \<times> nat) list" where
  "dict_of_enumerate xs = foldl (\<lambda>d (i, x). AList.update x i d) [] (enumerate 0 xs)"

text \<open>\<open>d[k]\<close> on a dictionary.\<close>

definition dict_get :: "('k \<times> 'v) list \<Rightarrow> 'k \<Rightarrow> error + 'v" where
  "dict_get d k = (case map_of d k of None \<Rightarrow> Inl KeyError | Some v \<Rightarrow> Inr v)"

text \<open>
  The input document: the values under the keys \<open>clusters\<close>, \<open>sentences\<close>,
  \<open>speakers\<close> and \<open>doc_key\<close> of the dictionary \<open>example\<close>, each taken out of the
  one-element batch that wraps it (\<open>example["sentences"][0]\<close>).
\<close>

record example =
  ex_clusters :: "mention list list"
  ex_sentences :: "string list list"
  ex_speakers :: "string list list"
  ex_doc_key :: string

text \<open>
  The attributes of the model that the modelled methods read.  \<open>embedder\<close> is the
  embedding collaborator, called on the sentences or on the document key and returning
  one row per sentence; \<open>char_dict\<close> is the character vocabulary, whose lookup may
  raise; \<open>genres\<close> is the dictionary that \<open>__init__\<close> builds from the genre tuple.
\<close>

record 'e config =
  emb_lowercase :: bool
  emb_format :: string
  embedder :: "string list list + string \<Rightarrow> 'e list"
  char_dict :: "char \<Rightarrow> error + nat"
  filter_widths :: "nat list"
  genres :: "(string \<times> nat) list"
  max_training_sentences :: nat
  train_on_gold :: bool
  mention_ratio :: real
  max_mention_width :: nat

text \<open>
  What the Python runtime decides: \<open>str.lower\<close>, the order in which a set of strings
  is iterated, and the draw of \<open>random.randint(a, b)\<close>.
\<close>

record runtime =
  str_lower :: "string \<Rightarrow> string"
  set_iter :: "string list \<Rightarrow> string list"
  randint :: "nat \<Rightarrow> nat \<Rightarrow> nat"

text \<open>
  The tuple that \<open>tensorize_example\<close> and \<open>truncate_example\<close> return: \<open>word_emb\<close>,
  \<open>char_index\<close>, \<open>text_len\<close>, \<open>speaker_ids\<close>, \<open>genre\<close>, \<open>is_training\<close>,
  \<open>gold_starts\<close>, \<open>gold_ends\<close>, \<open>cluster_ids\<close>.
\<close>

type_synonym 'e tensors =
  "'e list \<times> nat list list list \<times> nat list \<times> nat list \<times> nat \<times> bool \<times> int list \<times> int list \<times> nat list"

text \<open>\<open>CorefModel.tensorize_mentions\<close>: the starts and the ends of the mentions.\<close>

definition tensorize_mentions :: "mention list \<Rightarrow> int list \<times> int list" where
  "tensorize_mentions mentions =
     (if length mentions > 0 then (map fst mentions, map snd mentions) else ([], []))"

text \<open>
  The two nested loops of \<open>tensorize_example\<close> that fill \<open>cluster_ids\<close>:
  \<open>cluster_ids[gold_mention_map[tuple(mention)]] = cluster_id\<close>.
\<close>

fun assign_cluster :: "(mention \<times> nat) list \<Rightarrow> nat \<Rightarrow> mention list \<Rightarrow> nat list \<Rightarrow> error + nat list" where
  "assign_cluster gold_mention_map cluster_id [] ids = Inr ids"
| "assign_cluster gold_mention_map cluster_id (mention # rest) ids =
     ebind (dict_get gold_mention_map mention) (\<lambda>j.
       if j < length ids
       then assign_cluster gold_mention_map cluster_id rest (ids[j := cluster_id])
       else Inl IndexError)"

fun assign_clusters :: "(mention \<times> nat) list \<Rightarrow> nat \<Rightarrow> mention list list \<Rightarrow> nat list \<Rightarrow> error + nat list" where
  "assign_clusters gold_mention_map cluster_id [] ids = Inr ids"
| "assign_clusters gold_mention_map cluster_id (cluster # rest) ids =
     ebind (assign_cluster gold_mention_map cluster_id cluster ids)
       (assign_clusters gold_mention_map (Suc cluster_id) rest)"

text \<open>
  The first block of \<open>tensorize_example\<close>: the sorted gold mentions and the cluster id
  of each, starting from \<open>np.zeros(len(gold_mentions))\<close>.
\<close>

definition gold_cluster_ids :: "mention list list \<Rightarrow> error + (mention list \<times> nat list)" where
  "gold_cluster_ids clusters =
     (let gold_mentions = sort (flatten clusters);
          gold_mention_map = dict_of_enumerate gold_mentions
      in ebind (assign_clusters gold_mention_map 0 clusters (replicate (length gold_mentions) 0))
           (\<lambda>ids. Inr (gold_mentions, ids)))"

text \<open>
  One word of \<open>char_index\<close>: \<open>char_index[i, j, :len(word)] = [self.char_dict[c] for c in word]\<close>
  on a row of \<open>max_word_length\<close> zeros.  A word longer than the row (possible only when
  lowercasing lengthened it) does not fit the slice and raises \<open>ValueError\<close>.
\<close>

definition char_row :: "'e config \<Rightarrow> nat \<Rightarrow> string \<Rightarrow> error + nat list" where
  "char_row cfg max_word_length word =
     ebind (emap (char_dict cfg) word) (\<lambda>idx.
       if length idx > max_word_length then Inl ValueError
       else Inr (idx @ replicate (max_word_length - length idx) 0))"

definition char_rows :: "'e config \<Rightarrow> nat \<Rightarrow> nat \<Rightarrow> string list \<Rightarrow> error + nat list list" where
  "char_rows cfg max_sentence_length max_word_length sentence =
     ebind (emap (char_row cfg max_word_length) sentence) (\<lambda>rows.
       Inr (rows @ replicate (max_sentence_length - length rows) (replicate max_word_length 0)))"

text \<open>
  \<open>CorefModel.truncate_example\<close>.  The slices \<open>a[i:i + n]\<close> are \<open>take n (drop i a)\<close>;
  \<open>cluster_ids[gold_spans]\<close> with a boolean mask of another length raises \<open>IndexError\<close>.
\<close>

fun truncate_example :: "'e config \<Rightarrow> runtime \<Rightarrow> 'e tensors \<Rightarrow> error + 'e tensors" where
  "truncate_example cfg rt (word_emb, char_index, text_len, speaker_ids, genre, is_training, gold_starts, gold_ends, cluster_ids) =
     (let num_sentences = length word_emb in
      if \<not> num_sentences > max_training_sentences cfg then Inl AssertionError
      else
        let sentence_offset = randint rt 0 (num_sentences - max_training_sentences cfg);
            word_offset = sum_list (take sentence_offset text_len);
            num_words = sum_list (take (max_training_sentences cfg) (drop sentence_offset text_len));
            word_emb1 = take (max_training_sentences cfg) (drop sentence_offset word_emb);
            char_index1 = take (max_training_sentences cfg) (drop sentence_offset char_index);
            text_len1 = take (max_training_sentences cfg) (drop sentence_offset text_len);
            speaker_ids1 = take num_words (drop word_offset speaker_ids)
        in
          if length gold_ends \<noteq> length gold_starts then Inl AssertionError
          else
            let gold_spans = map2 (\<lambda>e s. e \<ge> int word_offset \<and> s < int word_offset + int num_words) gold_ends gold_starts;
                gold_starts1 = [s - int word_offset. (s, keep) \<leftarrow> zip gold_starts gold_spans, keep];
                gold_ends1 = [e - int word_offset. (e, keep) \<leftarrow> zip gold_ends gold_spans, keep]
            in
              if length gold_spans \<noteq> length cluster_ids then Inl IndexError
              else
                Inr (word_emb1, char_index1, text_len1, speaker_ids1, genre, is_training,
                     gold_starts1, gold_ends1, [c. (c, keep) \<leftarrow> zip cluster_ids gold_spans, keep]))"

text \<open>
  \<open>CorefModel.tensorize_example\<close> up to its last statement: the nine tensors of the
  whole document.
\<close>

definition tensorize_document :: "'e config \<Rightarrow> runtime \<Rightarrow> example \<Rightarrow> bool \<Rightarrow> error + 'e tensors" where
  "tensorize_document cfg rt example is_training =
     ebind (gold_cluster_ids (ex_clusters example)) (\<lambda>(gold_mentions, cluster_ids).
     let sentences = ex_sentences example;
         num_words = sum_list (map length sentences);
         speakers = flatten (ex_speakers example)
     in
     if num_words \<noteq> length speakers then Inl AssertionError
     else
     ebind (py_max (map length sentences)) (\<lambda>max_sentence_length.
     ebind (emap (\<lambda>s. py_max (map length s)) sentences) (\<lambda>longest.
     ebind (py_max longest) (\<lambda>longest_word.
     ebind (py_max (filter_widths cfg)) (\<lambda>widest_filter.
     let max_word_length = max longest_word widest_filter;
         text_len = map length sentences;
         doc_key = ex_doc_key example;
         sentences1 = (if emb_lowercase cfg then map (map (str_lower rt)) sentences else sentences)
     in
     ebind (emap (char_rows cfg max_sentence_length max_word_length) sentences1) (\<lambda>char_index.
     let word_emb = (if emb_format cfg = ''std_emb'' then embedder cfg (Inl sentences1)
                     else embedder cfg (Inr doc_key));
         speaker_dict = dict_of_enumerate (set_iter rt speakers)
     in
     ebind (emap (dict_get speaker_dict) speakers) (\<lambda>speaker_ids.
     ebind (dict_get (genres cfg) (take 2 doc_key)) (\<lambda>genre.
     let (gold_starts, gold_ends) = tensorize_mentions gold_mentions in
     Inr (word_emb, char_index, text_len, speaker_ids, genre, is_training, gold_starts, gold_ends, cluster_ids)))))))))"

text \<open>
  \<open>CorefModel.tensorize_example\<close>: the tensors of the document, cut by
  \<open>truncate_example\<close> when \<open>is_training and len(sentences) > self.max_training_sentences\<close>.
\<close>

definition tensorize_example :: "'e config \<Rightarrow> runtime \<Rightarrow> example \<Rightarrow> bool \<Rightarrow> error + 'e tensors" where
  "tensorize_example cfg rt example is_training =
     ebind (tensorize_document cfg rt example is_training) (\<lambda>tensors.
       if is_training \<and> length (ex_sentences example) > max_training_sentences cfg
       then truncate_example cfg rt tensors
       else Inr tensors)"

text \<open>The components of the returned tuple that the properties below speak about.\<close>

fun word_emb_of :: "'e tensors \<Rightarrow> 'e list" where
  "word_emb_of (word_emb, char_index, text_len, speaker_ids, genre, is_training, gold_starts, gold_ends, cluster_ids) = word_emb"

fun text_len_of :: "'e tensors \<Rightarrow> nat list" where
  "text_len_of (word_emb, char_index, text_len, speaker_ids, genre, is_training, gold_starts, gold_ends, cluster_ids) = text_len"

fun gold_starts_of :: "'e tensors \<Rightarrow> int list" where
  "gold_starts_of (word_emb, char_index, text_len, speaker_ids, genre, is_training, gold_starts, gold_ends, cluster_ids) = gold_starts"

fun gold_ends_of :: "'e tensors \<Rightarrow> int list" where
  "gold_ends_of (word_emb, char_index, text_len, speaker_ids, genre, is_training, gold_starts, gold_ends, cluster_ids) = gold_ends"

fun cluster_ids_of :: "'e tensors \<Rightarrow> nat list" where
  "cluster_ids_of (word_emb, char_index, text_len, speaker_ids, genre, is_training, gold_starts, gold_ends, cluster_ids) = cluster_ids"

text \<open>
  The end-to-end scenario of the specification: the two sentences "John arrived" and
  "He smiled", one speaker, genre \<open>bc\<close>, and the gold cluster of "John" and "He".  The
  model around it has a character vocabulary that knows every character, an embedder
  that returns one row per sentence (here the sentence's length), and the default
  filter widths and sentence cap.
\<close>

definition scenario_doc :: example where
  "scenario_doc =
     \<lparr>ex_clusters = [[(0, 0), (2, 2)]],
      ex_sentences = [[''John'', ''arrived''], [''He'', ''smiled'']],
      ex_speakers = [[''A'', ''A''], [''A'', ''A'']],
      ex_doc_key = ''bc/scenario''\<rparr>"

definition scenario_cfg :: "nat config" where
  "scenario_cfg =
     \<lparr>emb_lowercase = False, emb_format = ''std_emb'',
      embedder = (\<lambda>x. case x of Inl sentences \<Rightarrow> map length sentences | Inr doc_key \<Rightarrow> []),
      char_dict = (\<lambda>c. Inr 1), filter_widths = [3, 4, 5], genres = [(''bc'', 0)],
      max_training_sentences = 50, train_on_gold = True, mention_ratio = 0.4,
      max_mention_width = 10\<rparr>"

definition scenario_rt :: runtime where
  "scenario_rt = \<lparr>str_lower = id, set_iter = remdups, randint = (\<lambda>a b. a)\<rparr>"

section \<open>Construction of the model\<close>

text \<open>
  \<open>CorefModel.__init__\<close> has three outcomes: an exception of the first statements (the
  embedding parameters, modelled in full), an exception of the rest of the constructor
  (which builds the graph, opens the session and loads the weights), or the model.
\<close>

datatype ('x, 'm) construction = Raised error | RaisedLater 'x | Constructed 'm

text \<open>
  The argument \<open>embedder\<close> is \<open>None\<close> (the default) or an object of which the
  constructor reads \<open>dim\<close>; \<open>emb_format\<close> is a string.  \<open>rest\<close> stands for the
  constructor from \<open>self.char_dict = char_vocab\<close> on; \<open>tf\<close> is the state of the tensor
  library (default graph and sessions) before the call, and the result carries the
  state after it.  The \<open>ConfigError\<close> carries the rejected format.
\<close>

definition CorefModel_init ::
  "(nat \<Rightarrow> string \<Rightarrow> 'g \<Rightarrow> ('x + 'm) \<times> 'g) \<Rightarrow> nat option \<Rightarrow> string \<Rightarrow> 'g \<Rightarrow> ('x, 'm) construction \<times> 'g" where
  "CorefModel_init rest embedder_dim emb_format_arg tf =
     (case embedder_dim of
        None \<Rightarrow> (Raised AttributeError, tf)
      | Some embedding_size \<Rightarrow>
          if emb_format_arg \<notin> set [''std_emb'', ''cached'']
          then (Raised (ConfigError emb_format_arg), tf)
          else (case rest embedding_size emb_format_arg tf of
                  (Inl x, tf1) \<Rightarrow> (RaisedLater x, tf1)
                | (Inr m, tf1) \<Rightarrow> (Constructed m, tf1)))"

text \<open>
  A stand-in for the rest of the constructor, used to run it on concrete arguments: it
  builds a model (here just the embedding size) and adds one object to the state of
  the tensor library.
\<close>

definition scenario_rest :: "nat \<Rightarrow> string \<Rightarrow> nat \<Rightarrow> (unit + nat) \<times> nat" where
  "scenario_rest embedding_size emb_format_arg tf = (Inr embedding_size, Suc tf)"

section \<open>Mention selection\<close>

text \<open>
  The parts of the graph that are taken as given: the native operations \<open>spans\<close> and
  \<open>extract_mentions\<close>, the mention embedding and the mention scoring network (with
  their weights and dropout masks fixed), the number of mentions to keep
  (\<open>mention_budget n ratio\<close> is \<open>tf.to_int32(tf.floor(tf.to_float(n) * ratio))\<close>,
  computed in 32-bit floats, whose rounding is not modelled), the feed-forward network that scores pairs
  (already squeezed to one score per pair), the dropout on the pair features, the
  native operation \<open>distance_bins\<close> and the two embedding tables of the pair features.
\<close>

record ('x, 'm) graph_ops =
  spans :: "nat list \<Rightarrow> nat \<Rightarrow> int list \<times> int list"
  get_mention_emb :: "'x list \<Rightarrow> 'x list \<Rightarrow> int list \<Rightarrow> int list \<Rightarrow> error + 'm list"
  get_mention_scores :: "'m list \<Rightarrow> real list"
  extract_mentions :: "real list \<Rightarrow> int list \<Rightarrow> int list \<Rightarrow> int \<Rightarrow> int list"
  mention_budget :: "nat \<Rightarrow> real \<Rightarrow> int"
  ffnn :: "real list list list \<Rightarrow> real list list"
  feature_dropout :: "real list list list \<Rightarrow> real list list list"
  distance_bins :: "int list list \<Rightarrow> int list list"
  same_speaker_emb :: "real list list"
  mention_distance_emb :: "real list list"

text \<open>\<open>tf.gather(params, indices)\<close> for one index: out of range is an error of the run.\<close>

definition tf_gather1 :: "'a list \<Rightarrow> int \<Rightarrow> error + 'a" where
  "tf_gather1 params i =
     (if 0 \<le> i \<and> i < int (length params) then Inr (params ! nat i) else Inl InvalidArgumentError)"

definition tf_gather :: "'a list \<Rightarrow> int list \<Rightarrow> error + 'a list" where
  "tf_gather params indices = emap (tf_gather1 params) indices"

text \<open>
  The sentence index of every word: \<open>tf.range(num_sentences)\<close> tiled over the padded
  sentence length and flattened under the mask of the true lengths.
\<close>

definition flattened_sentence_indices :: "nat list \<Rightarrow> nat list" where
  "flattened_sentence_indices text_len = concat (map (\<lambda>(i, n). replicate n i) (enumerate 0 text_len))"

text \<open>
  The mention block of \<open>CorefModel.get_predictions_and_loss\<close> (from
  \<open>if self.train_on_gold\<close> to the four \<open>tf.gather\<close> of the other branch).  It returns
  \<open>candidate_mention_scores\<close>, \<open>mention_starts\<close>, \<open>mention_ends\<close>, \<open>mention_emb\<close> and
  \<open>mention_scores\<close>.
\<close>

definition select_mentions ::
  "'e config \<Rightarrow> ('x, 'm) graph_ops \<Rightarrow> 'x list \<Rightarrow> 'x list \<Rightarrow> nat list \<Rightarrow> int list \<Rightarrow> int list
     \<Rightarrow> error + (real list \<times> int list \<times> int list \<times> 'm list \<times> real list)" where
  "select_mentions cfg ops flattened_text_emb text_outputs text_len gold_starts gold_ends =
     (if train_on_gold cfg then
        ebind (get_mention_emb ops flattened_text_emb text_outputs gold_starts gold_ends) (\<lambda>candidate_mention_emb.
          let candidate_mention_scores = replicate (length gold_ends) 1
          in Inr (candidate_mention_scores, gold_starts, gold_ends, candidate_mention_emb, candidate_mention_scores))
      else
        let (candidate_starts, candidate_ends) =
              spans ops (flattened_sentence_indices text_len) (max_mention_width cfg)
        in
        ebind (get_mention_emb ops flattened_text_emb text_outputs candidate_starts candidate_ends) (\<lambda>candidate_mention_emb.
          let candidate_mention_scores = get_mention_scores ops candidate_mention_emb;
              k = mention_budget ops (length text_outputs) (mention_ratio cfg);
              predicted_mention_indices = extract_mentions ops candidate_mention_scores candidate_starts candidate_ends k
          in
          ebind (tf_gather candidate_starts predicted_mention_indices) (\<lambda>mention_starts.
          ebind (tf_gather candidate_ends predicted_mention_indices) (\<lambda>mention_ends.
          ebind (tf_gather candidate_mention_emb predicted_mention_indices) (\<lambda>mention_emb.
          ebind (tf_gather candidate_mention_scores predicted_mention_indices) (\<lambda>mention_scores.
            Inr (candidate_mention_scores, mention_starts, mention_ends, mention_emb, mention_scores)))))))"

section \<open>Antecedent scores and loss\<close>

text \<open>
  \<open>CorefModel.softmax_loss\<close> on score and label matrices of one shape
  \<open>[num_mentions, max_ant + 1]\<close>, row by row.  The labels are the booleans that the
  native operation \<open>get_antecedents\<close> returns.
\<close>

definition softmax_loss :: "f64 list list \<Rightarrow> bool list list \<Rightarrow> f64 list" where
  "softmax_loss antecedent_scores antecedent_labels =
     (let gold_scores = map2 (map2 (\<lambda>s l. f64_add s (f64_log (f64_of_bool l)))) antecedent_scores antecedent_labels;
          marginalized_gold_scores = map reduce_logsumexp gold_scores;
          log_norm = map reduce_logsumexp antecedent_scores
      in map2 f64_sub log_norm marginalized_gold_scores)"

text \<open>
  The loss of \<open>get_predictions_and_loss\<close>:
  \<open>tf.reduce_sum(self.softmax_loss(antecedent_scores, antecedent_labels))\<close>.
\<close>

definition document_loss :: "f64 list list \<Rightarrow> bool list list \<Rightarrow> f64" where
  "document_loss antecedent_scores antecedent_labels =
     reduce_sum (softmax_loss antecedent_scores antecedent_labels)"

text \<open>\<open>tf.sequence_mask(lengths, maxlen)\<close>: row \<open>i\<close> is true on its first \<open>lengths[i]\<close> places.\<close>

definition sequence_mask :: "int list \<Rightarrow> nat \<Rightarrow> bool list list" where
  "sequence_mask lengths maxlen = map (\<lambda>n. map (\<lambda>j. int j < n) [0..<maxlen]) lengths"

text \<open>
  \<open>CorefModel.get_antecedent_scores\<close>.  The tensors are lists of rows: \<open>mention_emb\<close> is
  \<open>[num_mentions, emb]\<close>, \<open>antecedents\<close> is \<open>[num_mentions, max_ant]\<close>; the model reads
  them at the indices of these shapes.  The two switches \<open>use_metadata\<close> and \<open>use_features\<close> are
  arguments; with both off \<open>feature_emb_list\<close> stays empty and \<open>tf.concat\<close> raises
  \<open>ValueError\<close> while the graph is built, before any tensor is read.  \<open>pair_features\<close>
  is the list \<open>feature_emb_list\<close>.
\<close>

text \<open>
  \<open>custom_layers.shape(x, 1)\<close> of a matrix given by its rows: the width of the first
  row (and 0 when there is no row, where the list does not record the width).
\<close>

definition shape1 :: "'a list list \<Rightarrow> nat" where
  "shape1 x = (case x of [] \<Rightarrow> 0 | row # rows \<Rightarrow> length row)"

definition pair_features ::
  "('x, real list) graph_ops \<Rightarrow> bool \<Rightarrow> bool \<Rightarrow> nat \<Rightarrow> nat \<Rightarrow> int list list \<Rightarrow> int list \<Rightarrow> real list
     \<Rightarrow> error + real list list list list" where
  "pair_features ops use_metadata use_features num_mentions max_antecedents antecedents mention_speaker_ids genre_emb =
     ebind (if use_metadata
            then ebind (emap (tf_gather mention_speaker_ids) antecedents) (\<lambda>antecedent_speaker_ids.
                 let same_speaker = map (\<lambda>i. map (\<lambda>a. mention_speaker_ids ! i = a) (antecedent_speaker_ids ! i))
                                      [0..<length mention_speaker_ids]
                 in ebind (emap (\<lambda>row. tf_gather (same_speaker_emb ops) (map (\<lambda>b. if b then 1 else 0) row)) same_speaker) (\<lambda>speaker_pair_emb.
                    let tiled_genre_emb = replicate num_mentions (replicate max_antecedents genre_emb)
                    in Inr [speaker_pair_emb, tiled_genre_emb]))
            else Inr []) (\<lambda>metadata.
     ebind (if use_features
            then let mention_distance = map (\<lambda>i. map (\<lambda>a. int i - a) (antecedents ! i)) [0..<num_mentions];
                     mention_distance_bins = distance_bins ops mention_distance
                 in ebind (emap (tf_gather (mention_distance_emb ops)) mention_distance_bins) (\<lambda>mention_distance_emb1.
                    Inr [mention_distance_emb1])
            else Inr []) (\<lambda>features.
     Inr (metadata @ features)))"

definition get_antecedent_scores ::
  "('x, real list) graph_ops \<Rightarrow> bool \<Rightarrow> bool \<Rightarrow> real list list \<Rightarrow> real list \<Rightarrow> int list list \<Rightarrow> int list
     \<Rightarrow> int list \<Rightarrow> real list \<Rightarrow> error + f64 list list" where
  "get_antecedent_scores ops use_metadata use_features mention_emb mention_scores antecedents antecedents_len
       mention_speaker_ids genre_emb =
     (let num_mentions = length mention_emb;
          max_antecedents = shape1 antecedents
      in
      if \<not> use_metadata \<and> \<not> use_features then Inl ValueError
      else
      ebind (pair_features ops use_metadata use_features num_mentions max_antecedents antecedents
               mention_speaker_ids genre_emb) (\<lambda>feature_emb_list.
        let feature_emb = feature_dropout ops
              (map (\<lambda>i. map (\<lambda>j. concat (map (\<lambda>f. f ! i ! j) feature_emb_list)) [0..<max_antecedents]) [0..<num_mentions])
        in
        ebind (emap (tf_gather mention_emb) antecedents) (\<lambda>antecedent_emb.
        let target_emb_tiled = map (\<lambda>i. replicate max_antecedents (mention_emb ! i)) [0..<num_mentions];
            similarity_emb = map2 (map2 (map2 (*))) antecedent_emb target_emb_tiled;
            pair_emb = map (\<lambda>i. map (\<lambda>j. target_emb_tiled ! i ! j @ antecedent_emb ! i ! j
                                         @ similarity_emb ! i ! j @ feature_emb ! i ! j)
                                  [0..<max_antecedents]) [0..<num_mentions];
            antecedent_scores = map (map Fin) (ffnn ops pair_emb);
            antecedent_mask = map (map (\<lambda>b. f64_log (f64_of_bool b))) (sequence_mask antecedents_len max_antecedents);
            antecedent_scores1 = map2 (map2 f64_add) antecedent_scores antecedent_mask
        in
        ebind (emap (tf_gather mention_scores) antecedents) (\<lambda>antecedent_mention_scores.
        let pair_mention_scores = map (\<lambda>i. map (\<lambda>a. Fin (mention_scores ! i + a)) (antecedent_mention_scores ! i))
                                    [0..<length mention_scores];
            antecedent_scores2 = map2 (map2 f64_add) antecedent_scores1 pair_mention_scores
        in Inr (map2 (\<lambda>z row. z @ row) (replicate (length mention_scores) [Fin 0]) antecedent_scores2)))))"

text \<open>
  The input of the pair network as the specification words it: the concatenation of
  the target embedding, the candidate embedding, their elementwise product and the
  feature embeddings of the pair \<open>(i, j)\<close>.
\<close>

definition spec_pair_emb :: "real list list \<Rightarrow> real list list list \<Rightarrow> int list list \<Rightarrow> nat \<Rightarrow> nat \<Rightarrow> real list" where
  "spec_pair_emb mention_emb feature_emb antecedents i j =
     (let target = mention_emb ! i; candidate = mention_emb ! nat (antecedents ! i ! j)
      in target @ candidate @ map2 (*) candidate target @ feature_emb ! i ! j)"

text \<open>
  Operations for the scenario: no span is enumerated and none is extracted (both
  operations are unused when training on gold), a mention is embedded as its start and
  end, the pair network sums its input, dropout keeps everything (inference), and the
  distance bins are the distances capped at 9.
\<close>

definition scenario_ops :: "(real list, real list) graph_ops" where
  "scenario_ops =
     \<lparr>spans = (\<lambda>sentence_indices max_width. ([], [])),
      get_mention_emb = (\<lambda>text_emb text_outputs starts ends. Inr (map2 (\<lambda>s e. [real_of_int s, real_of_int e]) starts ends)),
      get_mention_scores = map (\<lambda>emb. 0),
      extract_mentions = (\<lambda>scores starts ends k. []),
      mention_budget = (\<lambda>n ratio. \<lfloor>real n * ratio\<rfloor>),
      ffnn = map (map sum_list),
      feature_dropout = id,
      distance_bins = map (map (\<lambda>d. min 9 (max 0 d))),
      same_speaker_emb = [[0], [1]],
      mention_distance_emb = map (\<lambda>b. [real b]) [0..<10]\<rparr>"

section \<open>CharConnector\<close>

text \<open>
  \<open>sep.join(parts)\<close> of Python: the parts in order, with \<open>sep\<close> between
  neighbours.
\<close>

fun str_join :: "string \<Rightarrow> string list \<Rightarrow> string" where
  "str_join sep [] = []"
| "str_join sep [x] = x"
| "str_join sep (x # y # ys) = x @ sep @ str_join sep (y # ys)"

text \<open>
  \<open>CharConnector.__call__\<close>: \<open>["".join(sample) for sample in batch]\<close>.  A sample is
  a list of Python strings (the "characters").
\<close>

definition CharConnector_call :: "string list list \<Rightarrow> string list" where
  "CharConnector_call batch = [str_join [] sample. sample \<leftarrow> batch]"

section \<open>Properties of CharConnector\<close>

lemma str_join_empty_sep: "str_join [] xs = concat xs"
  by (induction "[] :: string" xs rule: str_join.induct) simp_all

text \<open>
  Claim C10.  For every batch, \<open>CharConnector.__call__\<close> returns a list as long as the
  batch whose i-th element is the concatenation, in order, of the characters of the i-th
  input sequence; an empty sequence gives the empty string and an empty batch the empty
  list.
\<close>

theorem CharConnector_call_concat:
  "length (CharConnector_call batch) = length batch
   \<and> (\<forall>i < length batch. CharConnector_call batch ! i = concat (batch ! i))
   \<and> CharConnector_call ([] # batch) = [] # CharConnector_call batch
   \<and> CharConnector_call [] = []"
  by (simp add: CharConnector_call_def str_join_empty_sep)

theorem CharConnector_call_concat_witness:
  "length (CharConnector_call [[''a'', ''b''], [], [''c'']]) = 3
   \<and> CharConnector_call [[''a'', ''b''], [], [''c'']] ! 0 = ''ab''
   \<and> CharConnector_call [[''a'', ''b''], [], [''c'']] ! 1 = ''''
   \<and> CharConnector_call [[''a'', ''b''], [], [''c'']] ! 2 = ''c''"
  using CharConnector_call_concat [of "[[''a'', ''b''], [], [''c'']]"]
  by (simp add: nth_Cons')


section \<open>Properties of the greedy decoding\<close>

lemma argmax_loop_bound: "mi < i \<Longrightarrow> argmax_loop mp mi i xs < i + length xs"
  by (induction mp mi i xs rule: argmax_loop.induct) auto

lemma np_argmax_bound: "np_argmax xs = Inr a \<Longrightarrow> a < length xs"
  using argmax_loop_bound[of 0 1]
  by (auto simp: np_argmax_def split: list.splits)

lemma predicted_loop_length:
  "predicted_loop ants i ams = Inr ps \<Longrightarrow> length ps = length ams"
  by (induction ants i ams arbitrary: ps rule: predicted_loop.induct)
     (auto simp: ebind_def split: sum.splits if_splits)

lemma predicted_loop_Cons:
  assumes "predicted_loop ants i (am # rest) = Inr ps"
  obtains p ps' where "ps = p # ps'" "predicted_loop ants (Suc i) rest = Inr ps'"
    "(am = 0 \<and> p = - 1) \<or> (0 < am \<and> i < length ants \<and> am - 1 < length (ants ! i) \<and> p = ants ! i ! (am - 1))"
  using assms
  by (auto simp: ebind_def np_get2_def np_get_def split: sum.splits if_splits)

lemma predicted_loop_nth:
  "predicted_loop ants i ams = Inr ps \<Longrightarrow> k < length ams \<Longrightarrow>
     (ams ! k = 0 \<and> ps ! k = - 1) \<or>
     (0 < ams ! k \<and> i + k < length ants \<and> ams ! k - 1 < length (ants ! (i + k))
        \<and> ps ! k = ants ! (i + k) ! (ams ! k - 1))"
proof (induction ams arbitrary: ps k i)
  case Nil
  then show ?case by simp
next
  case (Cons am rest)
  from Cons.prems(1) obtain p ps' where ps: "ps = p # ps'"
    and rest: "predicted_loop ants (Suc i) rest = Inr ps'"
    and hd: "(am = 0 \<and> p = - 1) \<or> (0 < am \<and> i < length ants \<and> am - 1 < length (ants ! i) \<and> p = ants ! i ! (am - 1))"
    by (rule predicted_loop_Cons)
  show ?case
  proof (cases k)
    case 0
    with ps hd show ?thesis by simp
  next
    case (Suc k')
    with Cons.prems(2) have "k' < length rest" by simp
    from Cons.IH[OF rest this] ps Suc show ?thesis by simp
  qed
qed

lemma predicted_antecedents_nth:
  assumes "get_predicted_antecedents ants scores = Inr ps" and "k < length ps"
  shows "ps ! k = - 1 \<or> (k < length ants \<and> ps ! k \<in> set (ants ! k))"
proof -
  from assms(1) obtain ams where ams: "np_argmax_axis1 scores = Inr ams"
    and loop: "predicted_loop ants 0 ams = Inr ps"
    by (auto simp: get_predicted_antecedents_def ebind_def split: sum.splits)
  from loop have "length ps = length ams" by (rule predicted_loop_length)
  with assms(2) have "k < length ams" by simp
  from predicted_loop_nth[OF loop this] show ?thesis by auto
qed

lemma set_update_subset: "set (AList.update k v al) \<subseteq> insert (k, v) (set al)"
  by (induction al) auto

lemma clusters_loop_total:
  assumes "\<forall>k < length ps. ps ! k < int (i + k)"
    and "i + length ps \<le> length ms" and "i + length ps \<le> length me"
    and "dict_in_range st"
  shows "\<exists>st'. clusters_loop ms me i ps st = Inr st' \<and> dict_in_range st'"
  using assms
proof (induction ps arbitrary: i st)
  case Nil
  then show ?case by simp
next
  case (Cons p ps)
  obtain d pcs where st: "st = (d, pcs)" by (cases st)
  have tail: "\<forall>k < length ps. ps ! k < int (Suc i + k)"
    using Cons.prems(1) by (auto dest: spec[where x = "Suc k" for k])
  have len: "Suc i + length ps \<le> length ms" "Suc i + length ps \<le> length me"
    using Cons.prems(2,3) by simp_all
  show ?case
  proof (cases "p < 0")
    case True
    with Cons.IH[OF tail len Cons.prems(4)] st show ?thesis by simp
  next
    case False
    from Cons.prems(1) have p: "p < int i" by (auto dest: spec[where x = 0])
    with False Cons.prems(2,3) have inr: "nat p < length ms" "nat p < length me" "i < length ms" "i < length me"
      by auto
    let ?a = "(ms ! nat p, me ! nat p)" and ?m = "(ms ! i, me ! i)"
    show ?thesis
    proof (cases "map_of d ?a")
      case None
      let ?st1 = "(AList.update ?m (length pcs) (AList.update ?a (length pcs) d), (pcs @ [[?a]])[length pcs := (pcs @ [[?a]]) ! length pcs @ [?m]])"
      have "dict_in_range ?st1"
        using Cons.prems(4) st set_update_subset[of ?m "length pcs" "AList.update ?a (length pcs) d"]
          set_update_subset[of ?a "length pcs" d]
        by (fastforce simp: dict_in_range_def)
      from Cons.IH[OF tail len this] False p inr None st show ?thesis
        by (simp add: ebind_def np_get_def Let_def)
    next
      case (Some c)
      then have "(?a, c) \<in> set d" by (rule map_of_SomeD)
      with Cons.prems(4) st have c: "c < length pcs" by (auto simp: dict_in_range_def)
      let ?st1 = "(AList.update ?m c d, pcs[c := pcs ! c @ [?m]])"
      have "dict_in_range ?st1"
        using Cons.prems(4) st c set_update_subset[of ?m c d]
        by (fastforce simp: dict_in_range_def)
      from Cons.IH[OF tail len this] False p inr Some st c show ?thesis
        by (simp add: ebind_def np_get_def Let_def)
    qed
  qed
qed

lemma resolve_clusters_total:
  "\<forall>(m, c) \<in> set d. c < length pcs \<Longrightarrow> \<exists>r. resolve_clusters pcs d = Inr r"
  by (induction d) (auto simp: ebind_def np_get_def)

lemma get_predicted_clusters_total:
  assumes "\<forall>k < length ps. ps ! k < int k"
    and "length ps \<le> length ms" and "length ps \<le> length me"
  shows "\<exists>r. get_predicted_clusters ms me ps = Inr r"
proof -
  have "dict_in_range ([], [])" by (simp add: dict_in_range_def)
  with clusters_loop_total[of ps 0 ms me "([], [])"] assms
  obtain d pcs where "clusters_loop ms me 0 ps ([], []) = Inr (d, pcs)" "dict_in_range (d, pcs)"
    by auto
  with resolve_clusters_total[of d pcs] show ?thesis
    by (auto simp: get_predicted_clusters_def ebind_def dict_in_range_def)
qed

lemma clusters_loop_no_assert:
  "\<forall>k < length ps. ps ! k < int (i + k) \<Longrightarrow> clusters_loop ms me i ps st \<noteq> Inl AssertionError"
proof (induction ps arbitrary: i st)
  case Nil
  then show ?case by simp
next
  case (Cons p ps)
  obtain d pcs where st: "st = (d, pcs)" by (cases st)
  have tail: "\<forall>k < length ps. ps ! k < int (Suc i + k)"
    using Cons.prems(1) by (auto dest: spec[where x = "Suc k" for k])
  from Cons.prems have p: "p < int i" by (auto dest: spec[where x = 0])
  note IH = Cons.IH[OF tail]
  show ?case
    using p unfolding st
    by (simp add: ebind_def np_get_def Let_def IH split: option.splits)
qed

lemma resolve_clusters_no_assert: "resolve_clusters pcs d \<noteq> Inl AssertionError"
  by (induction pcs d rule: resolve_clusters.induct)
     (auto simp: ebind_def np_get_def split: sum.splits)

lemma get_predicted_clusters_no_assert:
  assumes "\<forall>k < length ps. ps ! k < int k"
  shows "get_predicted_clusters ms me ps \<noteq> Inl AssertionError"
  using clusters_loop_no_assert[of ps 0 ms me "([], [])"] assms resolve_clusters_no_assert
  by (auto simp: get_predicted_clusters_def ebind_def split: sum.splits)

lemma earlier_acyclic:
  assumes "\<forall>k < length ps. ps ! k < int k"
  shows "acyclic {(i, nat (ps ! i)) | i. i < length ps \<and> 0 \<le> ps ! i}"
proof -
  have sub: "{(i, nat (ps ! i)) | i. i < length ps \<and> 0 \<le> ps ! i} \<subseteq> less_than\<inverse>"
    using assms by auto
  have "acyclic (less_than\<inverse>)"
    by (simp add: wf_acyclic)
  then show ?thesis using sub by (rule acyclic_subset)
qed

subsection \<open>The clusters built by the loop\<close>

lemma linked_Suc_skip: "preds ! k < 0 \<Longrightarrow> linked ms me preds (Suc k) = linked ms me preds k"
  by (auto simp: linked_def less_Suc_eq)

lemma linked_Suc_link:
  "0 \<le> preds ! k \<Longrightarrow>
   linked ms me preds (Suc k) = insert (mention_at ms me k) (insert (mention_at ms me (nat (preds ! k))) (linked ms me preds k))"
  by (auto simp: linked_def less_Suc_eq)

lemma concat_update_append:
  assumes "c < length pcs"
  shows "set (concat (pcs[c := pcs ! c @ [m]])) = insert m (set (concat pcs))"
proof -
  have pcs: "pcs = take c pcs @ [pcs ! c] @ drop (Suc c) pcs"
    using assms id_take_nth_drop by fastforce
  have upd: "pcs[c := pcs ! c @ [m]] = take c pcs @ [pcs ! c @ [m]] @ drop (Suc c) pcs"
    using assms by (simp add: upd_conv_take_nth_drop)
  have "set (concat pcs) = set (concat (take c pcs @ [pcs ! c] @ drop (Suc c) pcs))"
    using pcs by simp
  then show ?thesis unfolding upd by auto
qed

lemma distinct_concat_update_append:
  assumes "c < length pcs" "distinct (concat pcs)" "m \<notin> set (concat pcs)"
  shows "distinct (concat (pcs[c := pcs ! c @ [m]]))"
proof -
  have pcs: "pcs = take c pcs @ [pcs ! c] @ drop (Suc c) pcs"
    using assms(1) id_take_nth_drop by fastforce
  have upd: "pcs[c := pcs ! c @ [m]] = take c pcs @ [pcs ! c @ [m]] @ drop (Suc c) pcs"
    using assms(1) by (simp add: upd_conv_take_nth_drop)
  have "distinct (concat (take c pcs @ [pcs ! c] @ drop (Suc c) pcs))"
    "m \<notin> set (concat (take c pcs @ [pcs ! c] @ drop (Suc c) pcs))"
    using assms(2,3) pcs by simp_all
  then show ?thesis
    unfolding upd by auto
qed

lemma mention_at_inj:
  assumes "decodable ms me preds" "i < length preds" "j < length preds"
  shows "mention_at ms me i = mention_at ms me j \<longleftrightarrow> i = j"
proof -
  from assms have "zip ms me ! i = mention_at ms me i" "zip ms me ! j = mention_at ms me j"
    "i < length (zip ms me)" "j < length (zip ms me)" "distinct (zip ms me)"
    by (simp_all add: decodable_def mention_at_def)
  then show ?thesis by (metis nth_eq_iff_index_eq)
qed

lemma linked_earlier:
  assumes "decodable ms me preds" "k \<le> length preds" "x \<in> linked ms me preds k"
  shows "\<exists>j < k. x = mention_at ms me j"
proof -
  from assms(3) consider i where "i < k" "0 \<le> preds ! i" "x = mention_at ms me i"
    | i where "i < k" "0 \<le> preds ! i" "x = mention_at ms me (nat (preds ! i))"
    by (auto simp: linked_def)
  then show ?thesis
  proof cases
    case 1
    then show ?thesis by blast
  next
    case 2
    with assms(1,2) have "preds ! i < int i" by (simp add: decodable_def)
    with 2 have "nat (preds ! i) < k" by linarith
    with 2 show ?thesis by blast
  qed
qed

lemma current_not_linked:
  assumes "decodable ms me preds" "k < length preds"
  shows "mention_at ms me k \<notin> linked ms me preds k"
proof
  assume "mention_at ms me k \<in> linked ms me preds k"
  with linked_earlier[OF assms(1)] assms(2) obtain j where "j < k" "mention_at ms me k = mention_at ms me j"
    by (metis less_imp_le_nat)
  with mention_at_inj[OF assms(1), of k j] assms(2) show False by simp
qed

lemma inv_skip:
  assumes "decode_inv ms me preds k st" "preds ! k < 0"
  shows "decode_inv ms me preds (Suc k) st"
  using assms by (auto simp: decode_inv_def linked_Suc_skip less_Suc_eq)

lemma inv_join:
  assumes inv: "decode_inv ms me preds k (d, pcs)"
    and ok: "decodable ms me preds" and k: "k < length preds"
    and p: "0 \<le> preds ! k"
    and look: "map_of d (mention_at ms me (nat (preds ! k))) = Some c"
  shows "c < length pcs \<and> decode_inv ms me preds (Suc k)
           (AList.update (mention_at ms me k) c d, pcs[c := pcs ! c @ [mention_at ms me k]])"
proof -
  let ?m = "mention_at ms me k" and ?a = "mention_at ms me (nat (preds ! k))"
  let ?pcs = "pcs[c := pcs ! c @ [?m]]"
  from inv have i1: "distinct (concat pcs)" and i2: "set (concat pcs) = linked ms me preds k"
    and i3: "fst ` set d = set (concat pcs)" and i4: "distinct (map fst d)"
    and i5: "\<forall>(m, c) \<in> set d. c < length pcs \<and> m \<in> set (pcs ! c)"
    and i6: "\<forall>i < k. 0 \<le> preds ! i \<longrightarrow>
            (\<exists>c < length pcs. mention_at ms me i \<in> set (pcs ! c)
                \<and> mention_at ms me (nat (preds ! i)) \<in> set (pcs ! c))"
    by (simp_all add: decode_inv_def)
  from look have ac: "(?a, c) \<in> set d" by (rule map_of_SomeD)
  with i5 have c: "c < length pcs" and a_in: "?a \<in> set (pcs ! c)" by auto
  from a_in c have a_cc: "?a \<in> set (concat pcs)" by auto
  have m_new: "?m \<notin> set (concat pcs)"
    using current_not_linked[OF ok k] i2 by simp
  have grow: "set (pcs ! j) \<subseteq> set (?pcs ! j)" if "j < length pcs" for j
    using that c by (cases "j = c") auto
  have n1: "distinct (concat ?pcs)"
    using c i1 m_new by (rule distinct_concat_update_append)
  have n2: "set (concat ?pcs) = linked ms me preds (Suc k)"
    using concat_update_append[OF c, of ?m] i2 a_cc p by (auto simp: linked_Suc_link)
  have n3: "fst ` set (AList.update ?m c d) = set (concat ?pcs)"
    using concat_update_append[OF c, of ?m] i3 by (simp add: dom_update)
  have n4: "distinct (map fst (AList.update ?m c d))"
    using i4 by (simp add: distinct_update)
  have n5: "\<forall>(m, c') \<in> set (AList.update ?m c d). c' < length ?pcs \<and> m \<in> set (?pcs ! c')"
  proof (clarify)
    fix m' c' assume "(m', c') \<in> set (AList.update ?m c d)"
    with set_update_subset[of ?m c d] have "(m', c') = (?m, c) \<or> (m', c') \<in> set d" by auto
    then show "c' < length ?pcs \<and> m' \<in> set (?pcs ! c')"
    proof
      assume "(m', c') = (?m, c)"
      with c show ?thesis by simp
    next
      assume "(m', c') \<in> set d"
      with i5 have "c' < length pcs" "m' \<in> set (pcs ! c')" by auto
      with grow[of c'] show ?thesis by auto
    qed
  qed
  have n6: "\<exists>c' < length ?pcs. mention_at ms me i \<in> set (?pcs ! c')
                \<and> mention_at ms me (nat (preds ! i)) \<in> set (?pcs ! c')"
    if "i < Suc k" "0 \<le> preds ! i" for i
  proof (cases "i = k")
    case True
    with c a_in grow[OF c] show ?thesis by (intro exI[of _ c]) auto
  next
    case False
    with that have "i < k" by simp
    with i6 that obtain c' where "c' < length pcs" "mention_at ms me i \<in> set (pcs ! c')"
      "mention_at ms me (nat (preds ! i)) \<in> set (pcs ! c')" by blast
    with grow[of c'] show ?thesis by (intro exI[of _ c']) auto
  qed
  from c n1 n2 n3 n4 n5 n6 show ?thesis
    by (simp add: decode_inv_def)
qed

lemma inv_new:
  assumes inv: "decode_inv ms me preds k (d, pcs)"
    and ok: "decodable ms me preds" and k: "k < length preds"
    and p: "0 \<le> preds ! k"
    and look: "map_of d (mention_at ms me (nat (preds ! k))) = None"
  shows "decode_inv ms me preds (Suc k)
           (AList.update (mention_at ms me k) (length pcs)
              (AList.update (mention_at ms me (nat (preds ! k))) (length pcs) d),
            pcs @ [[mention_at ms me (nat (preds ! k)), mention_at ms me k]])"
proof -
  let ?m = "mention_at ms me k" and ?a = "mention_at ms me (nat (preds ! k))"
  let ?pcs = "pcs @ [[?a, ?m]]"
  let ?d = "AList.update ?m (length pcs) (AList.update ?a (length pcs) d)"
  from inv have i1: "distinct (concat pcs)" and i2: "set (concat pcs) = linked ms me preds k"
    and i3: "fst ` set d = set (concat pcs)" and i4: "distinct (map fst d)"
    and i5: "\<forall>(m, c) \<in> set d. c < length pcs \<and> m \<in> set (pcs ! c)"
    and i6: "\<forall>i < k. 0 \<le> preds ! i \<longrightarrow>
            (\<exists>c < length pcs. mention_at ms me i \<in> set (pcs ! c)
                \<and> mention_at ms me (nat (preds ! i)) \<in> set (pcs ! c))"
    by (simp_all add: decode_inv_def)
  from ok k have pk: "preds ! k < int k" by (simp add: decodable_def)
  with p k have ak: "nat (preds ! k) < k" "nat (preds ! k) < length preds" by linarith+
  have am: "?a \<noteq> ?m"
    using mention_at_inj[OF ok ak(2) k] ak(1) by simp
  from look have "?a \<notin> fst ` set d" by (simp add: map_of_eq_None_iff)
  with i3 have a_new: "?a \<notin> set (concat pcs)" by simp
  have m_new: "?m \<notin> set (concat pcs)"
    using current_not_linked[OF ok k] i2 by simp
  have old: "?pcs ! j = pcs ! j" if "j < length pcs" for j
    using that by (simp add: nth_append)
  have n1: "distinct (concat ?pcs)"
    using i1 a_new m_new am by auto
  have n2: "set (concat ?pcs) = linked ms me preds (Suc k)"
    using i2 p by (auto simp: linked_Suc_link)
  have n3: "fst ` set ?d = set (concat ?pcs)"
    using i3 by (auto simp: dom_update)
  have n4: "distinct (map fst ?d)"
    using i4 by (simp add: distinct_update)
  have n5: "\<forall>(m, c') \<in> set ?d. c' < length ?pcs \<and> m \<in> set (?pcs ! c')"
  proof (clarify)
    fix m' c' assume "(m', c') \<in> set ?d"
    with set_update_subset[of ?m "length pcs" "AList.update ?a (length pcs) d"]
      set_update_subset[of ?a "length pcs" d]
    have "(m', c') = (?m, length pcs) \<or> (m', c') = (?a, length pcs) \<or> (m', c') \<in> set d" by auto
    then show "c' < length ?pcs \<and> m' \<in> set (?pcs ! c')"
    proof (elim disjE)
      assume "(m', c') \<in> set d"
      with i5 have "c' < length pcs" "m' \<in> set (pcs ! c')" by auto
      with old[of c'] show ?thesis by simp
    qed simp_all
  qed
  have n6: "\<exists>c' < length ?pcs. mention_at ms me i \<in> set (?pcs ! c')
                \<and> mention_at ms me (nat (preds ! i)) \<in> set (?pcs ! c')"
    if "i < Suc k" "0 \<le> preds ! i" for i
  proof (cases "i = k")
    case True
    then show ?thesis by (intro exI[of _ "length pcs"]) simp
  next
    case False
    with that have "i < k" by simp
    with i6 that obtain c' where "c' < length pcs" "mention_at ms me i \<in> set (pcs ! c')"
      "mention_at ms me (nat (preds ! i)) \<in> set (pcs ! c')" by blast
    with old[of c'] show ?thesis by (intro exI[of _ c']) simp
  qed
  from n1 n2 n3 n4 n5 n6 show ?thesis
    by (simp add: decode_inv_def)
qed

lemma clusters_loop_inv:
  assumes "decodable ms me preds" "ps = drop k preds" "k \<le> length preds"
    "decode_inv ms me preds k st"
  shows "\<exists>st'. clusters_loop ms me k ps st = Inr st' \<and> decode_inv ms me preds (length preds) st'"
  using assms
proof (induction ps arbitrary: k st)
  case Nil
  then have "k = length preds" by simp
  with Nil show ?case by simp
next
  case (Cons p ps)
  obtain d pcs where st: "st = (d, pcs)" by (cases st)
  from Cons.prems(2,3) have k: "k < length preds"
    by (metis drop_all le_neq_implies_less list.distinct(1) order_refl)
  with Cons.prems(2) have p: "p = preds ! k" and ps: "ps = drop (Suc k) preds"
    by (metis Cons_nth_drop_Suc list.inject)+
  from k have k': "Suc k \<le> length preds" by simp
  note ok = Cons.prems(1)
  from ok k have lens: "k < length ms" "k < length me" and pk: "p < int k"
    by (simp_all add: decodable_def p)
  note inv = Cons.prems(4)[unfolded st]
  show ?case
  proof (cases "p < 0")
    case True
    from Cons.IH[OF ok ps k' inv_skip[OF Cons.prems(4)]] True p st show ?thesis by simp
  next
    case False
    with pk lens have ar: "nat p < length ms" "nat p < length me" by linarith+
    from False have p0: "0 \<le> preds ! k" by (simp add: p)
    show ?thesis
    proof (cases "map_of d (mention_at ms me (nat p))")
      case None
      from inv_new[OF inv ok k p0] None p
      have "decode_inv ms me preds (Suc k)
           (AList.update (mention_at ms me k) (length pcs)
              (AList.update (mention_at ms me (nat p)) (length pcs) d),
            pcs @ [[mention_at ms me (nat p), mention_at ms me k]])" by simp
      from Cons.IH[OF ok ps k' this] False pk lens ar None st show ?thesis
        by (simp add: ebind_def np_get_def Let_def mention_at_def)
    next
      case (Some c)
      from inv_join[OF inv ok k p0] Some p
      have c: "c < length pcs" and "decode_inv ms me preds (Suc k)
           (AList.update (mention_at ms me k) c d, pcs[c := pcs ! c @ [mention_at ms me k]])"
        by simp_all
      from Cons.IH[OF ok ps k' this(2)] False pk lens ar Some st c show ?thesis
        by (simp add: ebind_def np_get_def Let_def mention_at_def)
    qed
  qed
qed

lemma resolve_clusters_entries:
  assumes "\<forall>(m, c) \<in> set d. c < length pcs \<and> m \<in> set (pcs ! c)"
  shows "\<exists>r. resolve_clusters pcs d = Inr r \<and> map fst r = map fst d
           \<and> (\<forall>(m, c) \<in> set r. c \<in> set pcs \<and> m \<in> set c)"
  using assms
proof (induction d)
  case Nil
  then show ?case by simp
next
  case (Cons e d)
  obtain m c where e: "e = (m, c)" by (cases e)
  from Cons.prems e have c: "c < length pcs" "m \<in> set (pcs ! c)" by auto
  from Cons obtain r where "resolve_clusters pcs d = Inr r" "map fst r = map fst d"
    "\<forall>(m, c) \<in> set r. c \<in> set pcs \<and> m \<in> set c" by auto
  with c e show ?case by (simp add: ebind_def np_get_def)
qed

lemma clusters_cover_linked:
  assumes ok: "decodable mention_starts mention_ends preds"
  shows "\<exists>pcs d. get_predicted_clusters mention_starts mention_ends preds = Inr (pcs, d)
    \<and> distinct (concat pcs)
    \<and> set (concat pcs) = linked mention_starts mention_ends preds (length preds)
    \<and> (\<forall>i < length preds. 0 \<le> preds ! i \<longrightarrow>
          (\<exists>c \<in> set pcs. mention_at mention_starts mention_ends i \<in> set c
              \<and> mention_at mention_starts mention_ends (nat (preds ! i)) \<in> set c))
    \<and> (\<forall>i < length preds. preds ! i < 0 \<and> (\<forall>k < length preds. preds ! k \<noteq> int i) \<longrightarrow>
          mention_at mention_starts mention_ends i \<notin> set (concat pcs))
    \<and> fst ` set d = set (concat pcs)
    \<and> (\<forall>(m, c) \<in> set d. c \<in> set pcs \<and> m \<in> set c)"
proof -
  let ?n = "length preds"
  have "decode_inv mention_starts mention_ends preds 0 ([], [])"
    by (simp add: decode_inv_def linked_def)
  with clusters_loop_inv[OF ok, of preds 0 "([], [])"]
  obtain d0 pcs where loop: "clusters_loop mention_starts mention_ends 0 preds ([], []) = Inr (d0, pcs)"
    and inv: "decode_inv mention_starts mention_ends preds ?n (d0, pcs)"
    by auto
  from inv have i1: "distinct (concat pcs)"
    and i2: "set (concat pcs) = linked mention_starts mention_ends preds ?n"
    and i3: "fst ` set d0 = set (concat pcs)"
    and i5: "\<forall>(m, c) \<in> set d0. c < length pcs \<and> m \<in> set (pcs ! c)"
    and i6: "\<forall>i < ?n. 0 \<le> preds ! i \<longrightarrow>
            (\<exists>c < length pcs. mention_at mention_starts mention_ends i \<in> set (pcs ! c)
                \<and> mention_at mention_starts mention_ends (nat (preds ! i)) \<in> set (pcs ! c))"
    by (simp_all add: decode_inv_def)
  from resolve_clusters_entries[OF i5] obtain d where res: "resolve_clusters pcs d0 = Inr d"
    and keys: "map fst d = map fst d0"
    and ent: "\<forall>(m, c) \<in> set d. c \<in> set pcs \<and> m \<in> set c" by blast
  have run: "get_predicted_clusters mention_starts mention_ends preds = Inr (pcs, d)"
    using loop res by (simp add: get_predicted_clusters_def ebind_def)
  have dom: "fst ` set d = set (concat pcs)"
  proof -
    have "fst ` set d = set (map fst d)" by simp
    also have "\<dots> = fst ` set d0" unfolding keys by simp
    finally show ?thesis using i3 by simp
  qed
  have joined: "\<exists>c \<in> set pcs. mention_at mention_starts mention_ends i \<in> set c
              \<and> mention_at mention_starts mention_ends (nat (preds ! i)) \<in> set c"
    if "i < ?n" "0 \<le> preds ! i" for i
  proof -
    from i6 that obtain c where "c < length pcs" "mention_at mention_starts mention_ends i \<in> set (pcs ! c)"
      "mention_at mention_starts mention_ends (nat (preds ! i)) \<in> set (pcs ! c)" by blast
    then show ?thesis by (intro bexI[of _ "pcs ! c"]) simp_all
  qed
  have alone: "mention_at mention_starts mention_ends i \<notin> set (concat pcs)"
    if i: "i < ?n" and no: "preds ! i < 0" and un: "\<forall>k < ?n. preds ! k \<noteq> int i" for i
  proof
    assume "mention_at mention_starts mention_ends i \<in> set (concat pcs)"
    with i2 consider j where "j < ?n" "0 \<le> preds ! j"
        "mention_at mention_starts mention_ends i = mention_at mention_starts mention_ends j"
      | j where "j < ?n" "0 \<le> preds ! j"
        "mention_at mention_starts mention_ends i = mention_at mention_starts mention_ends (nat (preds ! j))"
      by (auto simp: linked_def)
    then show False
    proof cases
      case 1
      with mention_at_inj[OF ok i, of j] no show False by simp
    next
      case 2
      from ok 2(1) have "preds ! j < int j" by (simp add: decodable_def)
      with 2 have "nat (preds ! j) < ?n" by linarith
      from mention_at_inj[OF ok i this] 2 have "int i = preds ! j" by simp
      with un 2(1) show False by auto
    qed
  qed
  from run i1 i2 joined alone dom ent show ?thesis by blast
qed

text \<open>
  Claim C2, as stated, fails: a mention whose best slot is "no antecedent" is skipped
  (\<open>continue\<close>), it starts no cluster.  Here both mentions choose slot 0 and the
  returned clustering is empty, so neither appears in any cluster.
\<close>

theorem no_antecedent_starts_no_cluster:
  "decode [0, 2] [0, 2] [[0], [0]] [[Fin 0, NInf], [Fin 0, Fin (- 1)]] = Inr ([], [])"
  by (simp add: decode_def get_predicted_antecedents_def get_predicted_clusters_def ebind_def
      np_argmax_def np_get2_def np_get_def)

text \<open>
  Claim C7.  \<open>get_predicted_antecedents\<close> and \<open>get_predicted_clusters\<close> are static
  methods that read no object or global state, draw no random number and start from a
  fresh dictionary and list, so their composition is a function of the four tensors:
  two runs on the same tensors give the same clusters and the same mapping (or the
  same exception).
\<close>

theorem decode_deterministic:
  "decode mention_starts mention_ends antecedents antecedent_scores = first_run \<Longrightarrow>
   decode mention_starts mention_ends antecedents antecedent_scores = second_run \<Longrightarrow>
   first_run = second_run"
  by simp

theorem decode_deterministic_witness:
  "decode [0, 2] [0, 2] [[0], [0]] [[Fin 0, NInf], [Fin 0, Fin 1]]
     = Inr ([[(0, 0), (2, 2)]], [((0, 0), [(0, 0), (2, 2)]), ((2, 2), [(0, 0), (2, 2)])])"
proof -
  have run: "decode [0, 2] [0, 2] [[0], [0]] [[Fin 0, NInf], [Fin 0, Fin 1]]
     = Inr ([[(0, 0), (2, 2)]], [((0, 0), [(0, 0), (2, 2)]), ((2, 2), [(0, 0), (2, 2)])])"
    by (simp add: decode_def get_predicted_antecedents_def get_predicted_clusters_def ebind_def
      np_argmax_def np_get2_def np_get_def Let_def)
  from decode_deterministic[OF run refl] show ?thesis by simp
qed


section \<open>Properties of tensorizing\<close>

subsection \<open>Gold cluster ids\<close>

lemma enumerate_dict_other:
  "m \<notin> set xs \<Longrightarrow>
   map_of (foldl (\<lambda>d (i, x). AList.update x i d) d (enumerate n xs)) m = map_of d m"
  by (induction xs arbitrary: d n) (auto simp: update_conv')

lemma enumerate_dict_nth:
  "distinct xs \<Longrightarrow> i < length xs \<Longrightarrow>
   map_of (foldl (\<lambda>d (i, x). AList.update x i d) d (enumerate n xs)) (xs ! i) = Some (n + i)"
proof (induction xs arbitrary: d n i)
  case Nil
  then show ?case by simp
next
  case (Cons x xs)
  show ?case
  proof (cases i)
    case 0
    with Cons.prems show ?thesis by (simp add: enumerate_dict_other update_conv')
  next
    case (Suc i')
    with Cons.prems Cons.IH[of i' "AList.update x n d" "Suc n"] show ?thesis by simp
  qed
qed

lemma enumerate_dict_member:
  "m \<in> set xs \<Longrightarrow>
   \<exists>j. map_of (foldl (\<lambda>d (i, x). AList.update x i d) d (enumerate n xs)) m = Some j
       \<and> n \<le> j \<and> j < n + length xs"
proof (induction xs arbitrary: d n)
  case Nil
  then show ?case by simp
next
  case (Cons x xs)
  show ?case
  proof (cases "m \<in> set xs")
    case True
    from Cons.IH[OF True, of "AList.update x n d" "Suc n"] show ?thesis by auto
  next
    case False
    with Cons.prems have "m = x" by simp
    with False show ?thesis by (simp add: enumerate_dict_other update_conv')
  qed
qed

lemma dict_of_enumerate_nth:
  "distinct xs \<Longrightarrow> i < length xs \<Longrightarrow> dict_get (dict_of_enumerate xs) (xs ! i) = Inr i"
  using enumerate_dict_nth[of xs i "[]" 0] by (simp add: dict_of_enumerate_def dict_get_def)

lemma dict_of_enumerate_member:
  "m \<in> set xs \<Longrightarrow> \<exists>j < length xs. dict_get (dict_of_enumerate xs) m = Inr j"
  using enumerate_dict_member[of m xs "[]" 0] by (auto simp: dict_of_enumerate_def dict_get_def)

lemma assign_cluster_total:
  assumes "set c \<subseteq> set gms" "length ids = length gms"
  shows "\<exists>ids'. assign_cluster (dict_of_enumerate gms) cid c ids = Inr ids' \<and> length ids' = length gms"
  using assms
proof (induction c arbitrary: ids)
  case Nil
  then show ?case by simp
next
  case (Cons m c)
  then obtain j where j: "j < length gms" "dict_get (dict_of_enumerate gms) m = Inr j"
    using dict_of_enumerate_member[of m gms] by auto
  from Cons.IH[of "ids[j := cid]"] Cons.prems j show ?case by (simp add: ebind_def)
qed

lemma assign_clusters_total:
  assumes "set (concat cs) \<subseteq> set gms" "length ids = length gms"
  shows "\<exists>ids'. assign_clusters (dict_of_enumerate gms) cid cs ids = Inr ids' \<and> length ids' = length gms"
  using assms
proof (induction cs arbitrary: ids cid)
  case Nil
  then show ?case by simp
next
  case (Cons c cs)
  from Cons.prems assign_cluster_total[of c gms ids cid]
  obtain ids1 where "assign_cluster (dict_of_enumerate gms) cid c ids = Inr ids1" "length ids1 = length gms"
    by auto
  with Cons.IH[of ids1 "Suc cid"] Cons.prems show ?case by (simp add: ebind_def)
qed

lemma gold_cluster_ids_total:
  "\<exists>ids. gold_cluster_ids clusters = Inr (sort (flatten clusters), ids)
      \<and> length ids = length (flatten clusters)"
  using assign_clusters_total[of clusters "sort (flatten clusters)" "replicate (length (flatten clusters)) 0" 0]
  by (auto simp: gold_cluster_ids_def Let_def ebind_def flatten_def)

lemma assign_cluster_nth:
  assumes "distinct gms" "set c \<subseteq> set gms" "length ids = length gms"
    "assign_cluster (dict_of_enumerate gms) cid c ids = Inr ids'" "j < length gms"
  shows "ids' ! j = (if gms ! j \<in> set c then cid else ids ! j)"
  using assms(2,3,4)
proof (induction c arbitrary: ids)
  case Nil
  then show ?case by simp
next
  case (Cons m c)
  from Cons.prems(1) obtain i where i: "i < length gms" "gms ! i = m"
    by (auto simp: in_set_conv_nth)
  with dict_of_enumerate_nth[OF assms(1), of i] have look: "dict_get (dict_of_enumerate gms) m = Inr i"
    by simp
  with Cons.prems i have rest: "assign_cluster (dict_of_enumerate gms) cid c (ids[i := cid]) = Inr ids'"
    by (simp add: ebind_def)
  from Cons.IH[OF _ _ rest] Cons.prems
  have "ids' ! j = (if gms ! j \<in> set c then cid else ids[i := cid] ! j)" by simp
  moreover have "gms ! j = m \<longleftrightarrow> j = i"
    using assms(1,5) i by (auto simp: nth_eq_iff_index_eq)
  ultimately show ?case using Cons.prems(2) i by (auto simp: nth_list_update)
qed

lemma assign_clusters_nth:
  assumes "distinct gms" "set (concat cs) \<subseteq> set gms" "length ids = length gms"
    "distinct (concat cs)"
    "assign_clusters (dict_of_enumerate gms) cid cs ids = Inr ids'" "j < length gms"
    "c < length cs" "gms ! j \<in> set (cs ! c)"
  shows "ids' ! j = cid + c"
  using assms(2,3,4,5,7,8)
proof (induction cs arbitrary: ids cid c)
  case Nil
  then show ?case by simp
next
  case (Cons c0 cs)
  from Cons.prems(1,2) assign_cluster_total[of c0 gms ids cid]
  obtain ids1 where a1: "assign_cluster (dict_of_enumerate gms) cid c0 ids = Inr ids1"
    and l1: "length ids1 = length gms" by auto
  with Cons.prems(4) have rest: "assign_clusters (dict_of_enumerate gms) (Suc cid) cs ids1 = Inr ids'"
    by (simp add: ebind_def)
  from Cons.prems(1) have sub: "set c0 \<subseteq> set gms" "set (concat cs) \<subseteq> set gms" by auto
  from Cons.prems(3) have dis: "distinct (concat cs)" "set c0 \<inter> set (concat cs) = {}" by auto
  show ?case
  proof (cases c)
    case 0
    with Cons.prems(6) have in0: "gms ! j \<in> set c0" by simp
    with dis have out: "gms ! j \<notin> set (concat cs)" by auto
    have "ids1 ! j = cid"
      using assign_cluster_nth[OF assms(1) sub(1) Cons.prems(2) a1 assms(6)] in0 by simp
    moreover have "ids' ! j = ids1 ! j"
      using sub(2) l1 rest out
    proof (induction cs arbitrary: ids1 cid)
      case Nil
      then show ?case by simp
    next
      case (Cons c1 cs)
      from Cons.prems(1,2) assign_cluster_total[of c1 gms ids1 "Suc cid"]
      obtain ids2 where a2: "assign_cluster (dict_of_enumerate gms) (Suc cid) c1 ids1 = Inr ids2"
        and l2: "length ids2 = length gms" by auto
      with Cons.prems(3) have r2: "assign_clusters (dict_of_enumerate gms) (Suc (Suc cid)) cs ids2 = Inr ids'"
        by (simp add: ebind_def)
      from Cons.prems(1,4) have "set c1 \<subseteq> set gms" "set (concat cs) \<subseteq> set gms"
        "gms ! j \<notin> set c1" "gms ! j \<notin> set (concat cs)" by auto
      with Cons.IH[OF _ l2 r2] assign_cluster_nth[OF assms(1) _ Cons.prems(2) a2 assms(6)]
      show ?case by simp
    qed
    ultimately show ?thesis using 0 by simp
  next
    case (Suc c')
    with Cons.prems(5,6) have "c' < length cs" "gms ! j \<in> set (cs ! c')" by simp_all
    from Cons.IH[OF sub(2) l1 dis(1) rest this] Suc show ?thesis by simp
  qed
qed






lemma tensorize_mentions_eq: "tensorize_mentions ms = (map fst ms, map snd ms)"
  by (simp add: tensorize_mentions_def)

lemma emap_length: "emap f xs = Inr ys \<Longrightarrow> length ys = length xs"
  by (induction xs arbitrary: ys) (auto simp: ebind_def split: sum.splits)

lemma tensorize_document_gold:
  assumes "tensorize_document cfg rt example is_training = Inr t"
  shows "\<exists>ids. gold_cluster_ids (ex_clusters example) = Inr (sort (flatten (ex_clusters example)), ids)
     \<and> length ids = length (flatten (ex_clusters example))
     \<and> gold_starts_of t = map fst (sort (flatten (ex_clusters example)))
     \<and> gold_ends_of t = map snd (sort (flatten (ex_clusters example)))
     \<and> cluster_ids_of t = ids"
proof -
  from gold_cluster_ids_total[of "ex_clusters example"] obtain ids
    where g: "gold_cluster_ids (ex_clusters example) = Inr (sort (flatten (ex_clusters example)), ids)"
      and l: "length ids = length (flatten (ex_clusters example))" by blast
  from assms have "gold_starts_of t = map fst (sort (flatten (ex_clusters example)))
     \<and> gold_ends_of t = map snd (sort (flatten (ex_clusters example)))
     \<and> cluster_ids_of t = ids"
    unfolding tensorize_document_def g
    by (auto simp: ebind_def Let_def tensorize_mentions_eq split: sum.splits if_splits)
  with g l show ?thesis by blast
qed

lemma tensorize_document_shape:
  assumes "tensorize_document cfg rt example is_training = Inr t"
  shows "text_len_of t = map length (ex_sentences example)"
  using assms unfolding tensorize_document_def
  by (auto simp: ebind_def Let_def tensorize_mentions_eq split: sum.splits if_splits prod.splits)

text \<open>
  Claim C3, as stated, fails: \<open>enumerate(clusters)\<close> counts from 0, so the mentions
  of the first gold cluster get cluster id 0.  In the scenario document both gold
  mentions belong to the one gold cluster and both get id 0.
\<close>

theorem first_cluster_gets_id_zero:
  "tensorize_example scenario_cfg scenario_rt scenario_doc False =
     Inr ([2, 2],
          [[[1, 1, 1, 1, 0, 0, 0], [1, 1, 1, 1, 1, 1, 1]],
           [[1, 1, 0, 0, 0, 0, 0], [1, 1, 1, 1, 1, 1, 0]]],
          [2, 2], [0, 0, 0, 0], 0, False, [0, 2], [0, 2], [0, 0])"
  by (simp add: tensorize_example_def tensorize_document_def scenario_cfg_def scenario_rt_def
      scenario_doc_def gold_cluster_ids_def flatten_def dict_of_enumerate_def ebind_def dict_get_def
      enumerate_eq_zip tensorize_mentions_def char_rows_def char_row_def Let_def)

text \<open>
  Claim C3, amended.  When no span is listed twice in the gold clusters and the document
  is not truncated, the cluster-id array built by \<open>tensorize_example\<close> has one entry per
  gold mention, in the sorted order of \<open>gold_starts\<close> and \<open>gold_ends\<close>, and the entry
  of a mention is the 0-based index of the gold cluster that contains it.  So the
  mentions of the first cluster have id 0, mentions of one cluster share their id and
  mentions of different clusters differ in it; no id is set aside for mentions in no
  gold cluster, which have no entry in the array.
\<close>

theorem cluster_ids_are_cluster_indices:
  assumes once: "distinct (flatten (ex_clusters example))"
    and whole: "\<not> (is_training \<and> length (ex_sentences example) > max_training_sentences cfg)"
    and run: "tensorize_example cfg rt example is_training = Inr t"
  shows "zip (gold_starts_of t) (gold_ends_of t) = sort (flatten (ex_clusters example))
     \<and> length (cluster_ids_of t) = length (flatten (ex_clusters example))
     \<and> (\<forall>j < length (cluster_ids_of t). \<forall>c < length (ex_clusters example).
           (gold_starts_of t ! j, gold_ends_of t ! j) \<in> set (ex_clusters example ! c)
           \<longrightarrow> cluster_ids_of t ! j = c)"
proof -
  let ?cs = "ex_clusters example"
  let ?gms = "sort (flatten ?cs)"
  from whole run have doc: "tensorize_document cfg rt example is_training = Inr t"
    by (auto simp: tensorize_example_def ebind_def split: sum.splits if_splits)
  from tensorize_document_gold[OF doc] obtain ids
    where g: "gold_cluster_ids ?cs = Inr (?gms, ids)"
      and l: "length ids = length (flatten ?cs)"
      and gs: "gold_starts_of t = map fst ?gms" and ge: "gold_ends_of t = map snd ?gms"
      and ci: "cluster_ids_of t = ids" by blast
  have z: "zip (gold_starts_of t) (gold_ends_of t) = ?gms"
    unfolding gs ge by (simp add: zip_map_fst_snd)
  from g have loop: "assign_clusters (dict_of_enumerate ?gms) 0 ?cs (replicate (length ?gms) 0) = Inr ids"
    by (auto simp: gold_cluster_ids_def Let_def ebind_def split: sum.splits)
  have d: "distinct ?gms" "set (concat ?cs) \<subseteq> set ?gms" "distinct (concat ?cs)"
    using once by (simp_all add: flatten_def)
  have "cluster_ids_of t ! j = c"
    if j: "j < length (cluster_ids_of t)" and c: "c < length ?cs"
      and m: "(gold_starts_of t ! j, gold_ends_of t ! j) \<in> set (?cs ! c)" for j c
  proof -
    from j ci l have j': "j < length ?gms" by simp
    then have "?gms ! j = (gold_starts_of t ! j, gold_ends_of t ! j)"
      unfolding gs ge by simp
    with m have "?gms ! j \<in> set (?cs ! c)" by simp
    from assign_clusters_nth[OF d(1,2) _ d(3) loop j' c this] ci show ?thesis by simp
  qed
  with z ci l show ?thesis by blast
qed

theorem cluster_ids_are_cluster_indices_witness:
  "distinct (flatten (ex_clusters scenario_doc))
   \<and> cluster_ids_of ([2, 2],
          [[[1, 1, 1, 1, 0, 0, 0], [1, 1, 1, 1, 1, 1, 1]],
           [[1, 1, 0, 0, 0, 0, 0], [1, 1, 1, 1, 1, 1, 0 :: nat]]],
          [2, 2], [0, 0, 0, 0], 0, False, [0, 2], [0, 2], [0, 0]) ! 1 = 0"
proof -
  have once: "distinct (flatten (ex_clusters scenario_doc))"
    by (simp add: scenario_doc_def flatten_def)
  have whole: "\<not> (False \<and> length (ex_sentences scenario_doc) > max_training_sentences scenario_cfg)"
    by simp
  have run: "tensorize_example scenario_cfg scenario_rt scenario_doc False =
     Inr ([2, 2],
          [[[1, 1, 1, 1, 0, 0, 0], [1, 1, 1, 1, 1, 1, 1]],
           [[1, 1, 0, 0, 0, 0, 0], [1, 1, 1, 1, 1, 1, 0]]],
          [2, 2], [0, 0, 0, 0], 0, False, [0, 2], [0, 2], [0, 0])"
    by (simp add: tensorize_example_def tensorize_document_def scenario_cfg_def scenario_rt_def
      scenario_doc_def gold_cluster_ids_def flatten_def dict_of_enumerate_def ebind_def dict_get_def
      enumerate_eq_zip tensorize_mentions_def char_rows_def char_row_def Let_def)
  from cluster_ids_are_cluster_indices[OF once whole run]
  have "\<forall>j < length [0, 0 :: nat]. \<forall>c < length (ex_clusters scenario_doc).
           ([0, 2 :: int] ! j, [0, 2 :: int] ! j) \<in> set (ex_clusters scenario_doc ! c)
           \<longrightarrow> [0, 0 :: nat] ! j = c"
    by simp
  then have "[0, 0 :: nat] ! 1 = 0"
    by (simp add: scenario_doc_def)
  with once show ?thesis by simp
qed

subsection \<open>Truncation of long training documents\<close>

lemma masked_triples:
  assumes "length ss = length es" "length es = length cs"
  shows "zip [f s. (s, keep) \<leftarrow> zip ss (map2 P es ss), keep]
           (zip [f e. (e, keep) \<leftarrow> zip es (map2 P es ss), keep]
                [c. (c, keep) \<leftarrow> zip cs (map2 P es ss), keep])
         = map (\<lambda>(s, e, c). (f s, f e, c)) (filter (\<lambda>(s, e, c). P e s) (zip ss (zip es cs)))"
  using assms by (induction ss es cs rule: list_induct3) auto

lemma truncate_example_window:
  fixes cfg :: "'e config" and rt :: runtime and word_emb :: "'e list" and text_len :: "nat list"
  assumes more: "max_training_sentences cfg < length word_emb"
    and lens: "length gold_ends = length gold_starts" "length cluster_ids = length gold_starts"
  defines "M \<equiv> max_training_sentences cfg"
  defines "off \<equiv> randint rt 0 (length word_emb - max_training_sentences cfg)"
  defines "wo \<equiv> sum_list (take off text_len)"
  defines "nw \<equiv> sum_list (take M (drop off text_len))"
  shows "\<exists>gs ge ids. truncate_example cfg rt
            (word_emb, char_index, text_len, speaker_ids, genre, is_training, gold_starts, gold_ends, cluster_ids)
          = Inr (take M (drop off word_emb), take M (drop off char_index), take M (drop off text_len),
                 take nw (drop wo speaker_ids), genre, is_training, gs, ge, ids)
        \<and> zip gs (zip ge ids)
          = map (\<lambda>(s, e, c). (s - int wo, e - int wo, c))
              (filter (\<lambda>(s, e, c). int wo \<le> e \<and> s < int wo + int nw)
                 (zip gold_starts (zip gold_ends cluster_ids)))"
  using more lens
    masked_triples[of gold_starts gold_ends cluster_ids "\<lambda>x. x - int wo" "\<lambda>e s. int wo \<le> e \<and> s < int wo + int nw"]
  unfolding M_def off_def wo_def nw_def
  by (simp add: Let_def)

text \<open>
  Claim C4.  \<open>tensorize_example\<close> hands the tensors of the document to
  \<open>truncate_example\<close> exactly when \<open>is_training\<close> holds and the document has more than
  \<open>max_training_sentences\<close> sentences.  Then, for an embedder that returns one row per
  sentence and a draw of \<open>random.randint\<close> within its bounds, the result keeps exactly
  the \<open>max_training_sentences\<close> contiguous sentences from the drawn offset on; a gold
  span is kept, moved back by the number of words before the window, when it reaches
  into the window, and is dropped together with its cluster id otherwise.
\<close>

theorem truncation_of_training_documents:
  fixes cfg :: "'e config" and rt :: runtime and example :: example
  defines "N \<equiv> length (ex_sentences example)"
  defines "M \<equiv> max_training_sentences cfg"
  defines "off \<equiv> randint rt 0 (N - M)"
  assumes doc: "tensorize_document cfg rt example is_training
            = Inr (word_emb, char_index, text_len, speaker_ids, genre, tr, gold_starts, gold_ends, cluster_ids)"
    and rows: "length word_emb = N"
    and draw: "off \<le> N - M"
  shows "tensorize_example cfg rt example is_training
          = (if is_training \<and> M < N
             then truncate_example cfg rt
                    (word_emb, char_index, text_len, speaker_ids, genre, tr, gold_starts, gold_ends, cluster_ids)
             else Inr (word_emb, char_index, text_len, speaker_ids, genre, tr, gold_starts, gold_ends, cluster_ids))
    \<and> (is_training \<and> M < N \<longrightarrow>
         (\<exists>sp gs ge ids.
            tensorize_example cfg rt example is_training
              = Inr (take M (drop off word_emb), take M (drop off char_index), take M (drop off text_len),
                     sp, genre, tr, gs, ge, ids)
            \<and> length (take M (drop off word_emb)) = M
            \<and> take M (drop off text_len) = map length (take M (drop off (ex_sentences example)))
            \<and> length (take M (drop off (ex_sentences example))) = M
            \<and> zip gs (zip ge ids)
                = map (\<lambda>(s, e, c). (s - int (sum_list (take off text_len)), e - int (sum_list (take off text_len)), c))
                    (filter (\<lambda>(s, e, c). int (sum_list (take off text_len)) \<le> e
                                \<and> s < int (sum_list (take off text_len)) + int (sum_list (take M (drop off text_len))))
                       (zip gold_starts (zip gold_ends cluster_ids)))))"
proof -
  let ?t = "(word_emb, char_index, text_len, speaker_ids, genre, tr, gold_starts, gold_ends, cluster_ids)"
  have branch: "tensorize_example cfg rt example is_training
          = (if is_training \<and> M < N then truncate_example cfg rt ?t else Inr ?t)"
    using doc by (simp add: tensorize_example_def ebind_def N_def M_def)
  have cut: "\<exists>sp gs ge ids.
            tensorize_example cfg rt example is_training
              = Inr (take M (drop off word_emb), take M (drop off char_index), take M (drop off text_len),
                     sp, genre, tr, gs, ge, ids)
            \<and> length (take M (drop off word_emb)) = M
            \<and> take M (drop off text_len) = map length (take M (drop off (ex_sentences example)))
            \<and> length (take M (drop off (ex_sentences example))) = M
            \<and> zip gs (zip ge ids)
                = map (\<lambda>(s, e, c). (s - int (sum_list (take off text_len)), e - int (sum_list (take off text_len)), c))
                    (filter (\<lambda>(s, e, c). int (sum_list (take off text_len)) \<le> e
                                \<and> s < int (sum_list (take off text_len)) + int (sum_list (take M (drop off text_len))))
                       (zip gold_starts (zip gold_ends cluster_ids)))"
    if tr: "is_training" and big: "M < N"
  proof -
    from tensorize_document_gold[OF doc] have lens:
      "length gold_ends = length gold_starts" "length cluster_ids = length gold_starts"
      by (auto simp: flatten_def)
    from tensorize_document_shape[OF doc] have tl: "text_len = map length (ex_sentences example)"
      by simp
    from big rows have more: "max_training_sentences cfg < length word_emb"
      by (simp add: M_def)
    from truncate_example_window[OF more lens, of rt char_index text_len speaker_ids genre tr]
    obtain gs ge ids where
      res: "truncate_example cfg rt ?t
          = Inr (take M (drop off word_emb), take M (drop off char_index), take M (drop off text_len),
                 take (sum_list (take M (drop off text_len))) (drop (sum_list (take off text_len)) speaker_ids),
                 genre, tr, gs, ge, ids)"
      and spans: "zip gs (zip ge ids)
          = map (\<lambda>(s, e, c). (s - int (sum_list (take off text_len)), e - int (sum_list (take off text_len)), c))
              (filter (\<lambda>(s, e, c). int (sum_list (take off text_len)) \<le> e
                          \<and> s < int (sum_list (take off text_len)) + int (sum_list (take M (drop off text_len))))
                 (zip gold_starts (zip gold_ends cluster_ids)))"
      unfolding M_def off_def N_def rows[unfolded N_def] by blast
    have l1: "length (take M (drop off word_emb)) = M"
      using draw big rows by simp
    have l2: "length (take M (drop off (ex_sentences example))) = M"
      using draw big by (simp add: N_def)
    have l3: "take M (drop off text_len) = map length (take M (drop off (ex_sentences example)))"
      unfolding tl by (simp add: take_map drop_map)
    from branch tr big res have "tensorize_example cfg rt example is_training
          = Inr (take M (drop off word_emb), take M (drop off char_index), take M (drop off text_len),
                 take (sum_list (take M (drop off text_len))) (drop (sum_list (take off text_len)) speaker_ids),
                 genre, tr, gs, ge, ids)" by simp
    with l1 l2 l3 spans show ?thesis by blast
  qed
  from branch cut show ?thesis by blast
qed

theorem truncation_of_training_documents_witness:
  "tensorize_example (scenario_cfg\<lparr>max_training_sentences := 1\<rparr>)
     (scenario_rt\<lparr>randint := (\<lambda>a b. b)\<rparr>) scenario_doc True
   = Inr ([2], [[[1, 1, 0, 0, 0, 0, 0], [1, 1, 1, 1, 1, 1, 0]]], [2], [0, 0], 0, True, [0], [0], [0])"
proof -
  let ?cfg = "scenario_cfg\<lparr>max_training_sentences := 1\<rparr>"
  let ?rt = "scenario_rt\<lparr>randint := (\<lambda>a b. b)\<rparr>"
  have doc: "tensorize_document ?cfg ?rt scenario_doc True =
     Inr ([2, 2],
          [[[1, 1, 1, 1, 0, 0, 0], [1, 1, 1, 1, 1, 1, 1]],
           [[1, 1, 0, 0, 0, 0, 0], [1, 1, 1, 1, 1, 1, 0]]],
          [2, 2], [0, 0, 0, 0], 0, True, [0, 2], [0, 2], [0, 0])"
    by (simp add: tensorize_document_def scenario_cfg_def scenario_rt_def
      scenario_doc_def gold_cluster_ids_def flatten_def dict_of_enumerate_def ebind_def dict_get_def
      enumerate_eq_zip tensorize_mentions_def char_rows_def char_row_def Let_def)
  have rows: "length [2, 2 :: nat] = length (ex_sentences scenario_doc)"
    by (simp add: scenario_doc_def)
  have draw: "randint ?rt 0 (length (ex_sentences scenario_doc) - max_training_sentences ?cfg)
      \<le> length (ex_sentences scenario_doc) - max_training_sentences ?cfg"
    by simp
  from truncation_of_training_documents[OF doc rows draw]
  have "tensorize_example ?cfg ?rt scenario_doc True
          = truncate_example ?cfg ?rt ([2, 2],
          [[[1, 1, 1, 1, 0, 0, 0], [1, 1, 1, 1, 1, 1, 1]],
           [[1, 1, 0, 0, 0, 0, 0], [1, 1, 1, 1, 1, 1, 0]]],
          [2, 2], [0, 0, 0, 0], 0, True, [0, 2], [0, 2], [0, 0])"
    by (simp add: scenario_doc_def scenario_cfg_def)
  then show ?thesis
    by (simp add: scenario_doc_def scenario_cfg_def scenario_rt_def Let_def)
qed


section \<open>Properties of the construction\<close>

text \<open>
  Claim C9, as stated, fails when no embedder is given: \<open>self.embedder.dim\<close> is read
  before the format is checked, so with the default \<open>embedder=None\<close> an unsupported
  format ends in \<open>AttributeError\<close>, not in the configuration error.
\<close>

theorem missing_embedder_raises_first:
  "CorefModel_init scenario_rest None ''elmo'' 0 = (Raised AttributeError, 0)"
  by (simp add: CorefModel_init_def)

text \<open>
  Claim C9, amended.  When the constructor is given an embedder (an object with a
  \<open>dim\<close>), an \<open>emb_format\<close> other than \<open>std_emb\<close> and \<open>cached\<close> raises the
  configuration error at once: the rest of the constructor does not run and the state
  of the tensor library is the one before the call.  With either supported value the
  check raises nothing and the construction goes on with the rest of the constructor.
\<close>

theorem emb_format_checked_at_construction:
  "(emb_format_arg \<notin> {''std_emb'', ''cached''} \<longrightarrow>
      CorefModel_init rest (Some embedding_size) emb_format_arg tf = (Raised (ConfigError emb_format_arg), tf))
   \<and> (emb_format_arg \<in> {''std_emb'', ''cached''} \<longrightarrow>
        (\<forall>e. fst (CorefModel_init rest embedder_dim emb_format_arg tf) \<noteq> Raised (ConfigError e))
        \<and> CorefModel_init rest (Some embedding_size) emb_format_arg tf
            = (case rest embedding_size emb_format_arg tf of
                 (Inl x, tf1) \<Rightarrow> (RaisedLater x, tf1) | (Inr m, tf1) \<Rightarrow> (Constructed m, tf1)))"
  by (auto simp: CorefModel_init_def split: option.splits prod.splits sum.splits)

theorem emb_format_checked_at_construction_witness:
  "CorefModel_init scenario_rest (Some 300) ''elmo'' 0 = (Raised (ConfigError ''elmo''), 0)
   \<and> CorefModel_init scenario_rest (Some 300) ''cached'' 0 = (Constructed 300, 1)"
  using emb_format_checked_at_construction[of "''elmo''" scenario_rest 300 0]
    emb_format_checked_at_construction[of "''cached''" scenario_rest 300 0]
  by (simp add: scenario_rest_def)

section \<open>Properties of the mention selection\<close>

text \<open>
  Claim C8.  With \<open>train_on_gold\<close> the mention block returns the gold starts and ends
  as mention starts and ends and the score 1 for each of them, whatever the span
  enumeration, the scoring network and the pruning operation are: none of them is
  called.  In particular, for a document whose gold clusters are \<open>[[(0,0),(2,2)]]\<close>, not
  truncated, the mention set is \<open>{(0,0), (2,2)}\<close>.
\<close>

theorem train_on_gold_mentions:
  assumes gold: "train_on_gold cfg"
  shows "select_mentions cfg ops flattened_text_emb text_outputs text_len gold_starts gold_ends
          = ebind (get_mention_emb ops flattened_text_emb text_outputs gold_starts gold_ends)
              (\<lambda>emb. Inr (replicate (length gold_ends) 1, gold_starts, gold_ends, emb,
                           replicate (length gold_ends) 1))
     \<and> (ex_clusters example = [[(0, 0), (2, 2)]]
          \<and> \<not> (is_training \<and> length (ex_sentences example) > max_training_sentences cfg)
          \<and> tensorize_example cfg rt example is_training = Inr t
          \<and> select_mentions cfg ops flattened_text_emb text_outputs (text_len_of t) (gold_starts_of t) (gold_ends_of t)
               = Inr (candidate_mention_scores, mention_starts, mention_ends, mention_emb, mention_scores)
          \<longrightarrow> mention_starts = [0, 2] \<and> mention_ends = [0, 2] \<and> mention_scores = [1, 1]
              \<and> set (zip mention_starts mention_ends) = {(0, 0), (2, 2)})"
proof -
  have general: "select_mentions cfg ops fte tos tl gs ge
          = ebind (get_mention_emb ops fte tos gs ge)
              (\<lambda>emb. Inr (replicate (length ge) 1, gs, ge, emb, replicate (length ge) 1))"
    for fte tos :: "'c list" and tl gs ge
    using gold by (simp add: select_mentions_def Let_def)
  have particular: "mention_starts = [0, 2] \<and> mention_ends = [0, 2] \<and> mention_scores = [1, 1]
              \<and> set (zip mention_starts mention_ends) = {(0, 0), (2, 2)}"
    if cl: "ex_clusters example = [[(0, 0), (2, 2)]]"
      and whole: "\<not> (is_training \<and> length (ex_sentences example) > max_training_sentences cfg)"
      and run: "tensorize_example cfg rt example is_training = Inr t"
      and sel: "select_mentions cfg ops flattened_text_emb text_outputs (text_len_of t) (gold_starts_of t) (gold_ends_of t)
               = Inr (candidate_mention_scores, mention_starts, mention_ends, mention_emb, mention_scores)"
  proof -
    from whole run have doc: "tensorize_document cfg rt example is_training = Inr t"
      by (auto simp: tensorize_example_def ebind_def split: sum.splits if_splits)
    have srt: "sort (flatten (ex_clusters example)) = [(0, 0), (2, 2)]"
      unfolding cl by (simp add: flatten_def)
    from tensorize_document_gold[OF doc] have g: "gold_starts_of t = [0, 2]" "gold_ends_of t = [0, 2]"
      unfolding srt by auto
    from sel show ?thesis
      unfolding general g by (auto simp: ebind_def split: sum.splits)
  qed
  from general particular show ?thesis by blast
qed

theorem train_on_gold_mentions_witness:
  "train_on_gold scenario_cfg
   \<and> select_mentions scenario_cfg scenario_ops [] [] [2, 2] [0, 2] [0, 2]
       = Inr ([1, 1], [0, 2], [0, 2], [[0, 0], [2, 2]], [1, 1])"
proof -
  have gold: "train_on_gold scenario_cfg" by (simp add: scenario_cfg_def)
  from train_on_gold_mentions[OF gold, of scenario_ops "[]" "[]" "[2, 2]" "[0, 2]" "[0, 2]"]
  have "select_mentions scenario_cfg scenario_ops [] [] [2, 2] [0, 2] [0, 2]
          = ebind (get_mention_emb scenario_ops [] [] [0, 2] [0, 2])
              (\<lambda>emb. Inr (replicate (length [0, 2 :: int]) 1, [0, 2], [0, 2], emb,
                           replicate (length [0, 2 :: int]) 1))"
    by (rule conjunct1)
  with gold show ?thesis
    by (simp add: scenario_ops_def ebind_def eval_nat_numeral)
qed

section \<open>Properties of the loss\<close>

lemma f64_add_zero_right [simp]: "f64_add x (Fin 0) = x"
  by (cases x) simp_all

lemma f64_add_zero_left [simp]: "f64_add (Fin 0) x = x"
  by (cases x) simp_all

lemma gold_score_terms:
  "s \<noteq> PInf \<Longrightarrow> s \<noteq> NaN \<Longrightarrow> f64_exp (f64_add s (f64_log (f64_of_bool l))) = (if l then f64_exp s else Fin 0)"
  by (cases s) (simp_all add: f64_of_bool_def)

lemma gold_row_sum:
  assumes "length labels = length scores" "\<forall>s \<in> set scores. s \<noteq> PInf \<and> s \<noteq> NaN"
  shows "reduce_sum (map f64_exp (map2 (\<lambda>s l. f64_add s (f64_log (f64_of_bool l))) scores labels))
       = reduce_sum (map f64_exp [s. (s, l) \<leftarrow> zip scores labels, l])"
  using assms
proof (induction labels scores rule: list_induct2)
  case Nil
  then show ?case by simp
next
  case (Cons l labels s scores)
  then show ?case by (simp add: reduce_sum_def gold_score_terms)
qed

lemma softmax_loss_rows:
  assumes "length labels = length scores"
    and "\<forall>i < length scores. length (labels ! i) = length (scores ! i)"
    and "\<forall>row \<in> set scores. \<forall>s \<in> set row. s \<noteq> PInf \<and> s \<noteq> NaN"
  shows "softmax_loss scores labels
       = map2 (\<lambda>row lrow. f64_sub (reduce_logsumexp row) (reduce_logsumexp [s. (s, l) \<leftarrow> zip row lrow, l]))
           scores labels"
proof (rule nth_equalityI)
  show "length (softmax_loss scores labels)
      = length (map2 (\<lambda>row lrow. f64_sub (reduce_logsumexp row) (reduce_logsumexp [s. (s, l) \<leftarrow> zip row lrow, l]))
           scores labels)"
    using assms(1) by (simp add: softmax_loss_def Let_def)
next
  fix i assume "i < length (softmax_loss scores labels)"
  with assms(1) have i: "i < length scores" "i < length labels"
    by (simp_all add: softmax_loss_def Let_def)
  with assms(2,3) have row: "length (labels ! i) = length (scores ! i)" "\<forall>s \<in> set (scores ! i). s \<noteq> PInf \<and> s \<noteq> NaN"
    by auto
  show "softmax_loss scores labels ! i
      = map2 (\<lambda>row lrow. f64_sub (reduce_logsumexp row) (reduce_logsumexp [s. (s, l) \<leftarrow> zip row lrow, l]))
           scores labels ! i"
    using i gold_row_sum[OF row]
    by (simp add: softmax_loss_def Let_def reduce_logsumexp_def)
qed

text \<open>
  Claim C5.  Floats are read as exact reals with the special values; for score rows
  without \<open>+inf\<close> and NaN (reals and the \<open>-inf\<close> of masked places) and a 0/1 label
  matrix of the same shape, the loss of a mention computed by \<open>softmax_loss\<close> is the
  log-sum-exp of all scores of its row minus the log-sum-exp of the gold-labelled
  scores of the row, and the document loss is the sum of these losses.  This holds for
  every such row, in particular for those with at least one gold label.
\<close>

theorem softmax_loss_marginalizes_gold:
  assumes "length antecedent_labels = length antecedent_scores"
    and "\<forall>i < length antecedent_scores. length (antecedent_labels ! i) = length (antecedent_scores ! i)"
    and "\<forall>row \<in> set antecedent_scores. \<forall>s \<in> set row. s \<noteq> PInf \<and> s \<noteq> NaN"
  shows "softmax_loss antecedent_scores antecedent_labels
       = map2 (\<lambda>row lrow. f64_sub (reduce_logsumexp row) (reduce_logsumexp [s. (s, l) \<leftarrow> zip row lrow, l]))
           antecedent_scores antecedent_labels
     \<and> document_loss antecedent_scores antecedent_labels
       = reduce_sum (map2 (\<lambda>row lrow. f64_sub (reduce_logsumexp row) (reduce_logsumexp [s. (s, l) \<leftarrow> zip row lrow, l]))
           antecedent_scores antecedent_labels)"
  using softmax_loss_rows[OF assms] by (simp add: document_loss_def)

theorem softmax_loss_marginalizes_gold_witness:
  "softmax_loss [[Fin 0, Fin 1, NInf], [Fin 0, Fin 2, Fin 2]] [[True, False, False], [False, True, True]]
     = [f64_sub (reduce_logsumexp [Fin 0, Fin 1, NInf]) (reduce_logsumexp [Fin 0]),
        f64_sub (reduce_logsumexp [Fin 0, Fin 2, Fin 2]) (reduce_logsumexp [Fin 2, Fin 2])]"
proof -
  have shape: "length [[True, False, False], [False, True, True]] = length [[Fin 0, Fin 1, NInf], [Fin 0, Fin 2, Fin 2]]"
    by simp
  have rows: "\<forall>i < length [[Fin 0, Fin 1, NInf], [Fin 0, Fin 2, Fin 2]].
      length ([[True, False, False], [False, True, True]] ! i) = length ([[Fin 0, Fin 1, NInf], [Fin 0, Fin 2, Fin 2]] ! i)"
    by (simp add: nth_Cons' All_less_Suc)
  have reals: "\<forall>row \<in> set [[Fin 0, Fin 1, NInf], [Fin 0, Fin 2, Fin 2]]. \<forall>s \<in> set row. s \<noteq> PInf \<and> s \<noteq> NaN"
    by simp
  from softmax_loss_marginalizes_gold[OF shape rows reals] show ?thesis by simp
qed

section \<open>Properties of the antecedent scores\<close>

lemma tf_gather_in_range:
  "\<forall>a \<in> set indices. 0 \<le> a \<and> a < int (length params) \<Longrightarrow>
   tf_gather params indices = Inr (map (\<lambda>a. params ! nat a) indices)"
  by (induction indices) (simp_all add: tf_gather_def tf_gather1_def ebind_def)

lemma emap_rows:
  "\<forall>row \<in> set m. f row = Inr (g row) \<Longrightarrow> emap f m = Inr (map g m)"
  by (induction m) (simp_all add: ebind_def)

lemma gather_rows:
  assumes "\<forall>row \<in> set antecedents. \<forall>a \<in> set row. 0 \<le> a \<and> a < int (length params)"
  shows "emap (tf_gather params) antecedents = Inr (map (map (\<lambda>a. params ! nat a)) antecedents)"
  using assms by (intro emap_rows) (simp add: tf_gather_in_range)

lemma mask_entry:
  "f64_add (f64_add (Fin x) (f64_log (f64_of_bool b))) (Fin y) = (if b then Fin (x + y) else NInf)"
  by (simp add: f64_of_bool_def)

lemma rows_by_index:
  assumes "length FF = n" "length ms = n" "length al = n" "length ants = n"
  shows "map2 (@) (replicate (length ms) [z])
           (map2 (map2 f64_add)
              (map2 (map2 f64_add) (map (map Fin) FF) (map (map g) (sequence_mask al A)))
              (map (\<lambda>i. map (h i) (map (map k) ants ! i)) [0..<length ms]))
       = map (\<lambda>i. z # map2 f64_add
                       (map2 f64_add (map Fin (FF ! i)) (map (\<lambda>j. g (int j < al ! i)) [0..<A]))
                       (map (\<lambda>a. h i (k a)) (ants ! i)))
           [0..<n]"
proof (rule nth_equalityI)
  show "length (map2 (@) (replicate (length ms) [z])
           (map2 (map2 f64_add)
              (map2 (map2 f64_add) (map (map Fin) FF) (map (map g) (sequence_mask al A)))
              (map (\<lambda>i. map (h i) (map (map k) ants ! i)) [0..<length ms])))
       = length (map (\<lambda>i. z # map2 f64_add
                       (map2 f64_add (map Fin (FF ! i)) (map (\<lambda>j. g (int j < al ! i)) [0..<A]))
                       (map (\<lambda>a. h i (k a)) (ants ! i)))
           [0..<n])"
    using assms by (simp add: sequence_mask_def)
next
  fix i
  assume "i < length (map2 (@) (replicate (length ms) [z])
           (map2 (map2 f64_add)
              (map2 (map2 f64_add) (map (map Fin) FF) (map (map g) (sequence_mask al A)))
              (map (\<lambda>i. map (h i) (map (map k) ants ! i)) [0..<length ms])))"
  with assms have i: "i < n" by (simp add: sequence_mask_def)
  with assms show "map2 (@) (replicate (length ms) [z])
           (map2 (map2 f64_add)
              (map2 (map2 f64_add) (map (map Fin) FF) (map (map g) (sequence_mask al A)))
              (map (\<lambda>i. map (h i) (map (map k) ants ! i)) [0..<length ms])) ! i
       = map (\<lambda>i. z # map2 f64_add
                       (map2 f64_add (map Fin (FF ! i)) (map (\<lambda>j. g (int j < al ! i)) [0..<A]))
                       (map (\<lambda>a. h i (k a)) (ants ! i)))
           [0..<n] ! i"
    by (simp add: sequence_mask_def comp_def)
qed

lemma antecedent_scores_closed_form:
  fixes ops :: "('x, real list) graph_ops" and antecedents :: "int list list"
  defines "A \<equiv> shape1 antecedents"
  assumes flags: "use_metadata \<or> use_features"
    and n: "length antecedents = length mention_emb" "length mention_scores = length mention_emb"
      "length antecedents_len = length mention_emb"
    and width: "\<forall>row \<in> set antecedents. length row = shape1 antecedents"
    and range: "\<forall>row \<in> set antecedents. \<forall>a \<in> set row. 0 \<le> a \<and> a < int (length mention_emb)"
    and feats: "pair_features ops use_metadata use_features (length mention_emb) (shape1 antecedents) antecedents
                  mention_speaker_ids genre_emb = Inr feature_emb_list"
    and net: "\<forall>t. length (ffnn ops t) = length t"
  shows "get_antecedent_scores ops use_metadata use_features mention_emb mention_scores antecedents
           antecedents_len mention_speaker_ids genre_emb
       = Inr (map (\<lambda>i. Fin 0 #
                 map2 f64_add
                   (map2 f64_add
                      (map Fin (ffnn ops (map (\<lambda>i. map (\<lambda>j. spec_pair_emb mention_emb
                          (feature_dropout ops (map (\<lambda>i. map (\<lambda>j. concat (map (\<lambda>f. f ! i ! j) feature_emb_list)) [0..<A]) [0..<length mention_emb]))
                          antecedents i j) [0..<A]) [0..<length mention_emb]) ! i))
                      (map (\<lambda>j. f64_log (f64_of_bool (int j < antecedents_len ! i))) [0..<A]))
                   (map (\<lambda>a. Fin (mention_scores ! i + mention_scores ! nat a)) (antecedents ! i)))
              [0..<length mention_emb])"
proof -
  let ?n = "length mention_emb"
  let ?fe = "feature_dropout ops (map (\<lambda>i. map (\<lambda>j. concat (map (\<lambda>f. f ! i ! j) feature_emb_list)) [0..<A]) [0..<?n])"
  have ge: "emap (tf_gather mention_emb) antecedents = Inr (map (map (\<lambda>a. mention_emb ! nat a)) antecedents)"
    using range by (rule gather_rows)
  have gs: "emap (tf_gather mention_scores) antecedents = Inr (map (map (\<lambda>a. mention_scores ! nat a)) antecedents)"
    using range n(2) by (intro gather_rows) simp
  have rowlen: "length (antecedents ! i) = A" if "i < ?n" for i
    using width that n(1) by (simp add: A_def)
  have pe: "map (\<lambda>i. map (\<lambda>j. map (\<lambda>i. replicate A (mention_emb ! i)) [0..<?n] ! i ! j
                  @ map (map (\<lambda>a. mention_emb ! nat a)) antecedents ! i ! j
                  @ map2 (map2 (map2 (*))) (map (map (\<lambda>a. mention_emb ! nat a)) antecedents)
                       (map (\<lambda>i. replicate A (mention_emb ! i)) [0..<?n]) ! i ! j
                  @ ?fe ! i ! j) [0..<A]) [0..<?n]
          = map (\<lambda>i. map (\<lambda>j. spec_pair_emb mention_emb ?fe antecedents i j) [0..<A]) [0..<?n]"
    using n(1) rowlen by (auto simp: spec_pair_emb_def Let_def)
  show ?thesis
    unfolding get_antecedent_scores_def Let_def
    using flags
    by (simp add: feats[folded A_def] A_def[symmetric] ebind_def ge gs pe rows_by_index[where n = "length mention_emb"] n net del: upt_Suc)
qed

text \<open>
  Claim C6.  For tensors of the shapes of the graph (one row of \<open>max_antecedents\<close>
  candidate indices per mention, each the index of a mention), a pair network that
  returns one score per pair and features that could be built, the score matrix of
  \<open>get_antecedent_scores\<close> has one row per mention of width \<open>max_antecedents + 1\<close>.
  Column 0 is the constant 0 of the "no antecedent" option, never masked.  Column
  \<open>j + 1\<close> is, for \<open>j\<close> below the candidate count of the mention, the output of the
  network on the concatenation of target embedding, candidate embedding, their
  elementwise product and the feature embeddings, plus the mention scores of target
  and candidate; from the candidate count on it is \<open>-inf\<close>.
\<close>

theorem antecedent_scores_rows:
  fixes ops :: "('x, real list) graph_ops" and antecedents :: "int list list"
    and mention_emb :: "real list list" and feature_emb_list :: "real list list list list"
  defines "A \<equiv> shape1 antecedents"
  defines "n \<equiv> length mention_emb"
  assumes flags: "use_metadata \<or> use_features"
    and shapes: "length antecedents = n" "length mention_scores = n" "length antecedents_len = n"
    and width: "\<forall>row \<in> set antecedents. length row = A"
    and range: "\<forall>row \<in> set antecedents. \<forall>a \<in> set row. 0 \<le> a \<and> a < int n"
    and feats: "pair_features ops use_metadata use_features n A antecedents mention_speaker_ids genre_emb
                  = Inr feature_emb_list"
    and net: "\<forall>t. length (ffnn ops t) = length t \<and> (\<forall>i < length t. length (ffnn ops t ! i) = length (t ! i))"
  defines "feature_emb \<equiv> feature_dropout ops
             (map (\<lambda>i. map (\<lambda>j. concat (map (\<lambda>f. f ! i ! j) feature_emb_list)) [0..<A]) [0..<n])"
  defines "network \<equiv> ffnn ops (map (\<lambda>i. map (\<lambda>j. spec_pair_emb mention_emb feature_emb antecedents i j) [0..<A]) [0..<n])"
  shows "\<exists>rows. get_antecedent_scores ops use_metadata use_features mention_emb mention_scores antecedents
                  antecedents_len mention_speaker_ids genre_emb = Inr rows
          \<and> length rows = n
          \<and> (\<forall>i < n. length (rows ! i) = A + 1
                \<and> rows ! i ! 0 = Fin 0
                \<and> (\<forall>j < A. rows ! i ! Suc j =
                      (if int j < antecedents_len ! i
                       then Fin (network ! i ! j + (mention_scores ! i + mention_scores ! nat (antecedents ! i ! j)))
                       else NInf)))"
proof -
  let ?rows = "map (\<lambda>i. Fin 0 #
                 map2 f64_add
                   (map2 f64_add (map Fin (network ! i))
                      (map (\<lambda>j. f64_log (f64_of_bool (int j < antecedents_len ! i))) [0..<A]))
                   (map (\<lambda>a. Fin (mention_scores ! i + mention_scores ! nat a)) (antecedents ! i)))
              [0..<n]"
  have net1: "\<forall>t. length (ffnn ops t) = length t" using net by simp
  have run: "get_antecedent_scores ops use_metadata use_features mention_emb mention_scores antecedents
           antecedents_len mention_speaker_ids genre_emb = Inr ?rows"
    using antecedent_scores_closed_form[OF flags shapes[unfolded n_def] width[unfolded A_def]
        range[unfolded n_def] feats[unfolded n_def A_def] net1]
    by (simp add: network_def feature_emb_def A_def n_def)
  have len: "length ?rows = n" by simp
  have row: "length (?rows ! i) = A + 1 \<and> ?rows ! i ! 0 = Fin 0
                \<and> (\<forall>j < A. ?rows ! i ! Suc j =
                      (if int j < antecedents_len ! i
                       then Fin (network ! i ! j + (mention_scores ! i + mention_scores ! nat (antecedents ! i ! j)))
                       else NInf))" if i: "i < n" for i
  proof -
    from i shapes(1) width have la: "length (antecedents ! i) = A" by simp
    from i net have ln: "length (network ! i) = A" by (simp add: network_def)
    from i la ln show ?thesis by (simp add: mask_entry)
  qed
  from run len row show ?thesis by blast
qed

lemma scenario_features:
  "pair_features scenario_ops True True (Suc (Suc 0)) (Suc 0) [[0], [0]] [0, 0] [7]
     = Inr [[[[1]], [[1]]], [[[7]], [[7]]], [[[0]], [[1]]]]"
  by (simp add: pair_features_def scenario_ops_def tf_gather_def tf_gather1_def ebind_def Let_def
      eval_nat_numeral)

lemma scenario_scores:
  "get_antecedent_scores scenario_ops True True [[0, 0], [2, 2]] [1, 1] [[0], [0]] [0, 1] [0, 0] [7]
     = Inr [[Fin 0, NInf], [Fin 0, Fin 15]]"
  apply (simp add: get_antecedent_scores_def shape1_def scenario_features ebind_def Let_def)
  apply (simp add: scenario_ops_def tf_gather_def tf_gather1_def ebind_def sequence_mask_def f64_of_bool_def)
  done

theorem antecedent_scores_rows_witness:
  "pair_features scenario_ops True True (length [[0, 0], [2, 2 :: real]]) (shape1 [[0], [0 :: int]]) [[0], [0]] [0, 0] [7]
     = Inr [[[[1]], [[1]]], [[[7]], [[7]]], [[[0]], [[1]]]]
   \<and> get_antecedent_scores scenario_ops True True [[0, 0], [2, 2]] [1, 1] [[0], [0]] [0, 1] [0, 0] [7]
     = Inr [[Fin 0, NInf], [Fin 0, Fin 15]]"
proof -
  have flags: "True \<or> True" by simp
  have shapes: "length [[0], [0 :: int]] = length [[0, 0], [2, 2 :: real]]"
    "length [1, 1 :: real] = length [[0, 0], [2, 2 :: real]]"
    "length [0, 1 :: int] = length [[0, 0], [2, 2 :: real]]" by simp_all
  have width: "\<forall>row \<in> set [[0], [0 :: int]]. length row = shape1 [[0], [0 :: int]]"
    by (simp add: shape1_def)
  have range: "\<forall>row \<in> set [[0], [0 :: int]]. \<forall>a \<in> set row. 0 \<le> a \<and> a < int (length [[0, 0], [2, 2 :: real]])"
    by simp
  have feats: "pair_features scenario_ops True True (length [[0, 0], [2, 2 :: real]]) (shape1 [[0], [0 :: int]]) [[0], [0]] [0, 0] [7]
     = Inr [[[[1]], [[1]]], [[[7]], [[7]]], [[[0]], [[1]]]]"
    using scenario_features by (simp add: shape1_def)
  have net: "\<forall>t. length (ffnn scenario_ops t) = length t
      \<and> (\<forall>i < length t. length (ffnn scenario_ops t ! i) = length (t ! i))"
    by (simp add: scenario_ops_def)
  from antecedent_scores_rows[OF flags shapes width range feats net]
  obtain rows where "get_antecedent_scores scenario_ops True True [[0, 0], [2, 2]] [1, 1] [[0], [0]] [0, 1] [0, 0] [7]
     = Inr rows" by (elim exE conjE)
  with feats scenario_scores show ?thesis by simp
qed


section \<open>The highest-scoring slot\<close>

lemma f64_le_refl: "x \<noteq> NaN \<Longrightarrow> f64_le x x"
  by (cases x) simp_all

lemma f64_le_total: "x \<noteq> NaN \<Longrightarrow> y \<noteq> NaN \<Longrightarrow> f64_le x y \<or> f64_le y x"
  by (cases x; cases y) auto

lemma f64_le_trans: "f64_le x y \<Longrightarrow> f64_le y z \<Longrightarrow> f64_le x z"
  by (cases x; cases y; cases z) auto

lemma f64_le_not_NaN: "f64_le x y \<Longrightarrow> x \<noteq> NaN \<and> y \<noteq> NaN"
  by (cases x; cases y) auto

lemma argmax_loop_highest:
  assumes "ys = pre @ xs" "mi < length pre" "mp = ys ! mi"
    and "mp = NaN \<or> (\<forall>k < length pre. f64_le (ys ! k) mp)"
    and "\<forall>k < mi. ys ! k \<noteq> NaN \<and> \<not> f64_le mp (ys ! k)"
  shows "highest_scoring_slot ys (argmax_loop mp mi (length pre) xs)"
  using assms
proof (induction xs arbitrary: pre mp mi)
  case Nil
  have "argmax_loop mp mi (length pre) [] = mi" by simp
  moreover have "highest_scoring_slot ys mi"
    unfolding highest_scoring_slot_def
    using Nil.prems(1,2,4,5) unfolding Nil.prems(3) by simp
  ultimately show ?case by simp
next
  case (Cons x xs)
  have ys: "ys = (pre @ [x]) @ xs"
    using Cons.prems(1) by simp
  have x: "ys ! length pre = x"
    using Cons.prems(1) by simp
  have len: "length (pre @ [x]) = Suc (length pre)" by simp
  have mi_ys: "mi < length ys" using Cons.prems(1,2) by simp
  show ?case
  proof (cases "mp = NaN")
    case True
    have res: "argmax_loop mp mi (length pre) (x # xs) = mi"
      using True by simp
    have "highest_scoring_slot ys mi"
      unfolding highest_scoring_slot_def
      using mi_ys Cons.prems(5) True unfolding Cons.prems(3) by simp
    with res show ?thesis by simp
  next
    case mp: False
    with Cons.prems(4) have below: "\<forall>k < length pre. f64_le (ys ! k) mp" by simp
    show ?thesis
    proof (cases "f64_le x mp")
      case True
      have res: "argmax_loop mp mi (length pre) (x # xs) = argmax_loop mp mi (length (pre @ [x])) xs"
        using mp True by simp
      have inv: "mp = NaN \<or> (\<forall>k < length (pre @ [x]). f64_le (ys ! k) mp)"
      proof (rule disjI2, intro allI impI)
        fix k assume "k < length (pre @ [x])"
        then have "k < length pre \<or> k = length pre" by auto
        then show "f64_le (ys ! k) mp"
          using below True x by blast
      qed
      have mi': "mi < length (pre @ [x])" using Cons.prems(2) by simp
      have "highest_scoring_slot ys (argmax_loop mp mi (length (pre @ [x])) xs)"
        by (rule Cons.IH[OF ys mi' Cons.prems(3) inv Cons.prems(5)])
      with res show ?thesis by simp
    next
      case False
      have res: "argmax_loop mp mi (length pre) (x # xs) = argmax_loop x (length pre) (length (pre @ [x])) xs"
        using mp False by simp
      have inv: "x = NaN \<or> (\<forall>k < length (pre @ [x]). f64_le (ys ! k) x)"
      proof (cases "x = NaN")
        case True
        then show ?thesis by simp
      next
        case xn: False
        with mp False f64_le_total[of x mp] have mx: "f64_le mp x" by blast
        have "\<forall>k < length (pre @ [x]). f64_le (ys ! k) x"
        proof (intro allI impI)
          fix k assume "k < length (pre @ [x])"
          then consider "k < length pre" | "k = length pre" by fastforce
          then show "f64_le (ys ! k) x"
          proof cases
            case 1
            with below have "f64_le (ys ! k) mp" by simp
            then show ?thesis using mx by (rule f64_le_trans)
          next
            case 2
            then show ?thesis using x xn by (simp add: f64_le_refl)
          qed
        qed
        then show ?thesis by simp
      qed
      have first: "\<forall>k < length pre. ys ! k \<noteq> NaN \<and> \<not> f64_le x (ys ! k)"
      proof (intro allI impI)
        fix k assume k: "k < length pre"
        with below have le: "f64_le (ys ! k) mp" by simp
        then have "ys ! k \<noteq> NaN" by (simp add: f64_le_not_NaN)
        moreover have "\<not> f64_le x (ys ! k)"
        proof
          assume "f64_le x (ys ! k)"
          then have "f64_le x mp" using le by (rule f64_le_trans)
          with False show False by simp
        qed
        ultimately show "ys ! k \<noteq> NaN \<and> \<not> f64_le x (ys ! k)" by simp
      qed
      have mi': "length pre < length (pre @ [x])" by simp
      have "highest_scoring_slot ys (argmax_loop x (length pre) (length (pre @ [x])) xs)"
        by (rule Cons.IH[OF ys mi' x[symmetric] inv first])
      with res show ?thesis by simp
    qed
  qed
qed

lemma np_argmax_highest:
  assumes "np_argmax row = Inr a"
  shows "highest_scoring_slot row a"
proof -
  from assms obtain x rest where row: "row = x # rest" and a: "a = argmax_loop x 0 1 rest"
    by (auto simp: np_argmax_def split: list.splits)
  have "highest_scoring_slot row (argmax_loop x 0 (length [x]) rest)"
  proof (rule argmax_loop_highest[where pre = "[x]" and mi = 0])
    show "row = [x] @ rest" by (simp add: row)
    show "0 < length [x]" by simp
    show "x = row ! 0" by (simp add: row)
    show "x = NaN \<or> (\<forall>k < length [x]. f64_le (row ! k) x)"
      by (cases "x = NaN") (simp_all add: row f64_le_refl)
    show "\<forall>k < 0. row ! k \<noteq> NaN \<and> \<not> f64_le x (row ! k)" by simp
  qed
  with a show ?thesis by simp
qed

lemma highest_scoring_slot_unique:
  assumes "highest_scoring_slot row a" "highest_scoring_slot row b"
  shows "a = b"
proof -
  have False if ab: "a < b" and ha: "highest_scoring_slot row a" and hb: "highest_scoring_slot row b" for a b
  proof -
    from hb ab have "row ! a \<noteq> NaN" "\<not> f64_le (row ! b) (row ! a)"
      by (auto simp: highest_scoring_slot_def)
    moreover from hb have "b < length row" by (simp add: highest_scoring_slot_def)
    ultimately show False using ha by (auto simp: highest_scoring_slot_def)
  qed
  from this[of a b] this[of b a] assms show ?thesis by (meson linorder_neqE_nat)
qed

lemma np_argmax_axis1_nth:
  "np_argmax_axis1 rows = Inr ams \<Longrightarrow>
   length ams = length rows \<and> (\<forall>i < length rows. np_argmax (rows ! i) = Inr (ams ! i))"
proof (induction rows arbitrary: ams)
  case Nil
  then show ?case by simp
next
  case (Cons row rows)
  from Cons.prems obtain a as where a: "np_argmax row = Inr a" and as: "np_argmax_axis1 rows = Inr as"
    and ams: "ams = a # as"
    by (auto simp: ebind_def split: sum.splits)
  from Cons.IH[OF as] a ams show ?case by (auto simp: nth_Cons')
qed

lemma np_argmax_axis1_total:
  "\<forall>row \<in> set rows. row \<noteq> [] \<Longrightarrow> \<exists>ams. np_argmax_axis1 rows = Inr ams"
proof (induction rows)
  case Nil
  then show ?case by simp
next
  case (Cons row rows)
  then obtain ams where "np_argmax_axis1 rows = Inr ams" by auto
  moreover from Cons.prems obtain x rest where "row = x # rest" by (cases row) auto
  ultimately show ?case by (simp add: ebind_def np_argmax_def)
qed

lemma predicted_loop_total:
  "\<forall>k < length ams. ams ! k = 0 \<or> (i + k < length ants \<and> ams ! k - 1 < length (ants ! (i + k))) \<Longrightarrow>
   \<exists>ps. predicted_loop ants i ams = Inr ps"
proof (induction ams arbitrary: i)
  case Nil
  then show ?case by simp
next
  case (Cons am rest)
  have "\<forall>k < length rest. rest ! k = 0 \<or> (Suc i + k < length ants \<and> rest ! k - 1 < length (ants ! (Suc i + k)))"
    using Cons.prems by (auto dest: spec[where x = "Suc k" for k])
  from Cons.IH[OF this] obtain ps where ps: "predicted_loop ants (Suc i) rest = Inr ps" by blast
  from Cons.prems have "am = 0 \<or> (i < length ants \<and> am - 1 < length (ants ! i))"
    by (auto dest: spec[where x = 0])
  with ps show ?case by (auto simp: ebind_def np_get2_def np_get_def)
qed

lemma predicted_antecedents_argmax:
  assumes "get_predicted_antecedents ants scores = Inr ps" and "k < length ps"
  shows "\<exists>a. k < length scores \<and> np_argmax (scores ! k) = Inr a
           \<and> ((a = 0 \<and> ps ! k = - 1)
              \<or> (0 < a \<and> k < length ants \<and> a - 1 < length (ants ! k) \<and> ps ! k = ants ! k ! (a - 1)))"
proof -
  from assms(1) obtain ams where ams: "np_argmax_axis1 scores = Inr ams"
    and loop: "predicted_loop ants 0 ams = Inr ps"
    by (auto simp: get_predicted_antecedents_def ebind_def split: sum.splits)
  from loop have len: "length ps = length ams" by (rule predicted_loop_length)
  with assms(2) have k: "k < length ams" by simp
  from np_argmax_axis1_nth[OF ams] k have ks: "k < length scores"
    and am: "np_argmax (scores ! k) = Inr (ams ! k)" by simp_all
  from predicted_loop_nth[OF loop k] ks am show ?thesis by auto
qed

lemma predicted_antecedents_length:
  assumes "get_predicted_antecedents ants scores = Inr ps"
  shows "length ps = length scores"
proof -
  from assms obtain ams where ams: "np_argmax_axis1 scores = Inr ams"
    and loop: "predicted_loop ants 0 ams = Inr ps"
    by (auto simp: get_predicted_antecedents_def ebind_def split: sum.splits)
  from predicted_loop_length[OF loop] np_argmax_axis1_nth[OF ams] show ?thesis by simp
qed

lemma masked_slot_not_highest:
  assumes "highest_scoring_slot row a" "0 < a" "row ! 0 = Fin 0"
  shows "row ! a \<noteq> NInf"
proof
  assume "row ! a = NInf"
  moreover from assms(1,2) have "\<not> f64_le (row ! a) (row ! 0)"
    by (simp add: highest_scoring_slot_def)
  ultimately show False using assms(3) by simp
qed

lemma earlier_or_masked_predictions:
  assumes slots: "\<forall>i < length antecedents. \<forall>j < length (antecedents ! i).
        antecedents ! i ! j < int i
        \<or> (antecedent_scores ! i ! 0 = Fin 0 \<and> antecedent_scores ! i ! Suc j = NInf)"
    and run: "get_predicted_antecedents antecedents antecedent_scores = Inr preds"
    and i: "i < length preds"
  shows "preds ! i = - 1 \<or> preds ! i < int i"
proof -
  from predicted_antecedents_argmax[OF run i] obtain a
    where am: "np_argmax (antecedent_scores ! i) = Inr a"
      and cases: "(a = 0 \<and> preds ! i = - 1)
              \<or> (0 < a \<and> i < length antecedents \<and> a - 1 < length (antecedents ! i)
                   \<and> preds ! i = antecedents ! i ! (a - 1))"
    by blast
  from cases show ?thesis
  proof
    assume "a = 0 \<and> preds ! i = - 1"
    then show ?thesis by simp
  next
    assume sel: "0 < a \<and> i < length antecedents \<and> a - 1 < length (antecedents ! i)
                   \<and> preds ! i = antecedents ! i ! (a - 1)"
    with slots have "antecedents ! i ! (a - 1) < int i
        \<or> (antecedent_scores ! i ! 0 = Fin 0 \<and> antecedent_scores ! i ! Suc (a - 1) = NInf)"
      by blast
    moreover from sel have "Suc (a - 1) = a" by simp
    moreover have "\<not> (antecedent_scores ! i ! 0 = Fin 0 \<and> antecedent_scores ! i ! a = NInf)"
      using masked_slot_not_highest[OF np_argmax_highest[OF am]] sel by blast
    ultimately show ?thesis using sel by simp
  qed
qed

lemma antecedent_scores_returned:
  assumes "get_antecedent_scores ops use_metadata use_features mention_emb mention_scores antecedents
             antecedents_len mention_speaker_ids genre_emb = Inr scores"
  shows "(use_metadata \<or> use_features)
     \<and> (\<exists>fl. pair_features ops use_metadata use_features (length mention_emb) (shape1 antecedents) antecedents
                  mention_speaker_ids genre_emb = Inr fl)"
  using assms unfolding get_antecedent_scores_def Let_def
  by (cases "pair_features ops use_metadata use_features (length mention_emb) (shape1 antecedents) antecedents
                  mention_speaker_ids genre_emb") (auto simp: ebind_def split: if_splits)

section \<open>The decoding on the scores of the pipeline\<close>

lemma antecedent_scores_masked:
  fixes ops :: "('x, real list) graph_ops" and antecedents :: "int list list"
  assumes run: "get_antecedent_scores ops use_metadata use_features mention_emb mention_scores antecedents
             antecedents_len mention_speaker_ids genre_emb = Inr scores"
    and n: "length antecedents = length mention_emb" "length mention_scores = length mention_emb"
      "length antecedents_len = length mention_emb"
    and width: "\<forall>row \<in> set antecedents. length row = shape1 antecedents"
    and range: "\<forall>row \<in> set antecedents. \<forall>a \<in> set row. 0 \<le> a \<and> a < int (length mention_emb)"
    and net: "\<forall>t. length (ffnn ops t) = length t \<and> (\<forall>i < length t. length (ffnn ops t ! i) = length (t ! i))"
  shows "length scores = length mention_emb
     \<and> (\<forall>i < length mention_emb. length (scores ! i) = shape1 antecedents + 1
            \<and> scores ! i ! 0 = Fin 0
            \<and> (\<forall>j < shape1 antecedents. \<not> int j < antecedents_len ! i \<longrightarrow> scores ! i ! Suc j = NInf))"
proof -
  let ?n = "length mention_emb" and ?A = "shape1 antecedents"
  from antecedent_scores_returned[OF run] obtain fl where flags: "use_metadata \<or> use_features"
    and feats: "pair_features ops use_metadata use_features ?n ?A antecedents
                  mention_speaker_ids genre_emb = Inr fl" by blast
  have net1: "\<forall>t. length (ffnn ops t) = length t" using net by simp
  define network where "network = ffnn ops (map (\<lambda>i. map (\<lambda>j. spec_pair_emb mention_emb
                          (feature_dropout ops (map (\<lambda>i. map (\<lambda>j. concat (map (\<lambda>f. f ! i ! j) fl)) [0..<?A]) [0..<?n]))
                          antecedents i j) [0..<?A]) [0..<?n])"
  let ?rows = "map (\<lambda>i. Fin 0 #
                 map2 f64_add
                   (map2 f64_add (map Fin (network ! i))
                      (map (\<lambda>j. f64_log (f64_of_bool (int j < antecedents_len ! i))) [0..<?A]))
                   (map (\<lambda>a. Fin (mention_scores ! i + mention_scores ! nat a)) (antecedents ! i)))
              [0..<?n]"
  have "get_antecedent_scores ops use_metadata use_features mention_emb mention_scores antecedents
             antecedents_len mention_speaker_ids genre_emb = Inr ?rows"
    using antecedent_scores_closed_form[OF flags n width range feats net1]
    by (simp add: network_def)
  with run have scores: "scores = ?rows" by simp
  have row: "length (?rows ! i) = ?A + 1 \<and> ?rows ! i ! 0 = Fin 0
            \<and> (\<forall>j < ?A. \<not> int j < antecedents_len ! i \<longrightarrow> ?rows ! i ! Suc j = NInf)"
    if i: "i < ?n" for i
  proof -
    from i n(1) width have la: "length (antecedents ! i) = ?A" by simp
    from i net have ln: "length (network ! i) = ?A" by (simp add: network_def)
    from i la ln show ?thesis by (simp add: mask_entry)
  qed
  have "length ?rows = ?n" by simp
  with row show ?thesis unfolding scores by blast
qed

lemma pipeline_predictions_returned:
  assumes len: "length scores = length antecedents"
    and rows: "\<forall>i < length antecedents. length (scores ! i) = length (antecedents ! i) + 1"
  shows "\<exists>preds. get_predicted_antecedents antecedents scores = Inr preds"
proof -
  have "\<forall>row \<in> set scores. row \<noteq> []"
  proof
    fix row assume "row \<in> set scores"
    then obtain i where "i < length scores" "scores ! i = row" by (auto simp: in_set_conv_nth)
    with len rows have "length row = length (antecedents ! i) + 1" by auto
    then show "row \<noteq> []" by auto
  qed
  from np_argmax_axis1_total[OF this] obtain ams where ams: "np_argmax_axis1 scores = Inr ams" by blast
  have "\<forall>k < length ams. ams ! k = 0 \<or> (0 + k < length antecedents \<and> ams ! k - 1 < length (antecedents ! (0 + k)))"
  proof (intro allI impI)
    fix k assume "k < length ams"
    with np_argmax_axis1_nth[OF ams] have k: "k < length scores" and am: "np_argmax (scores ! k) = Inr (ams ! k)"
      by simp_all
    from np_argmax_bound[OF am] k len rows have "ams ! k < length (antecedents ! k) + 1" by simp
    with k len show "ams ! k = 0 \<or> (0 + k < length antecedents \<and> ams ! k - 1 < length (antecedents ! (0 + k)))"
      by auto
  qed
  from predicted_loop_total[OF this] ams show ?thesis
    by (auto simp: get_predicted_antecedents_def ebind_def)
qed

text \<open>
  Claim C1.  The tensor \<open>antecedents\<close> is rectangular, so a row also holds padding
  slots after the candidates of its mention.  First part: when every slot of row \<open>i\<close>
  either holds an index strictly less than \<open>i\<close> or is masked (its score is \<open>-inf\<close>
  against the 0 of the "no antecedent" slot), every antecedent that
  \<open>get_predicted_antecedents\<close> predicts for mention \<open>i\<close> is \<open>-1\<close> or strictly less
  than \<open>i\<close>; so the assertion \<open>i > predicted_index\<close> of \<open>get_predicted_clusters\<close>
  never fails, with one span per prediction the decode returns, and the antecedent
  links form no cycle.  This covers in particular a matrix all of whose entries in row
  \<open>i\<close> are less than \<open>i\<close>.  Second part: the scores that \<open>get_antecedent_scores\<close>
  returns for well-shaped tensors mask every slot from the candidate count on, so when
  the candidates of each mention are strictly earlier mentions, the first part applies
  to the matrices of the pipeline, and \<open>get_predicted_antecedents\<close> returns one
  prediction per mention.
\<close>

theorem predicted_antecedents_earlier:
  fixes ops :: "('x, real list) graph_ops"
  shows
  "((\<forall>i < length antecedents. \<forall>j < length (antecedents ! i).
        antecedents ! i ! j < int i
        \<or> (antecedent_scores ! i ! 0 = Fin 0 \<and> antecedent_scores ! i ! Suc j = NInf))
    \<and> get_predicted_antecedents antecedents antecedent_scores = Inr preds
    \<longrightarrow> (\<forall>i < length preds. preds ! i = - 1 \<or> preds ! i < int i)
        \<and> get_predicted_clusters mention_starts mention_ends preds \<noteq> Inl AssertionError
        \<and> (length preds \<le> length mention_starts \<and> length preds \<le> length mention_ends \<longrightarrow>
             (\<exists>r. get_predicted_clusters mention_starts mention_ends preds = Inr r
                  \<and> decode mention_starts mention_ends antecedents antecedent_scores = Inr r))
        \<and> acyclic {(i, nat (preds ! i)) | i. i < length preds \<and> 0 \<le> preds ! i})
   \<and> (get_antecedent_scores ops use_metadata use_features mention_emb mention_scores antecedents
           antecedents_len mention_speaker_ids genre_emb = Inr antecedent_scores
        \<and> length antecedents = length mention_emb
        \<and> length mention_scores = length mention_emb
        \<and> length antecedents_len = length mention_emb
        \<and> (\<forall>row \<in> set antecedents. length row = shape1 antecedents)
        \<and> (\<forall>row \<in> set antecedents. \<forall>a \<in> set row. 0 \<le> a \<and> a < int (length mention_emb))
        \<and> (\<forall>t. length (ffnn ops t) = length t \<and> (\<forall>i < length t. length (ffnn ops t ! i) = length (t ! i)))
        \<and> (\<forall>i < length antecedents. \<forall>j < length (antecedents ! i).
               int j < antecedents_len ! i \<longrightarrow> antecedents ! i ! j < int i)
        \<longrightarrow> (\<forall>i < length antecedents. \<forall>j < length (antecedents ! i).
               antecedents ! i ! j < int i
               \<or> (antecedent_scores ! i ! 0 = Fin 0 \<and> antecedent_scores ! i ! Suc j = NInf))
            \<and> (\<exists>preds. get_predicted_antecedents antecedents antecedent_scores = Inr preds
                  \<and> length preds = length mention_emb))"
proof (intro conjI impI)
  assume hyp: "(\<forall>i < length antecedents. \<forall>j < length (antecedents ! i).
        antecedents ! i ! j < int i
        \<or> (antecedent_scores ! i ! 0 = Fin 0 \<and> antecedent_scores ! i ! Suc j = NInf))
    \<and> get_predicted_antecedents antecedents antecedent_scores = Inr preds"
  then have slots: "\<forall>i < length antecedents. \<forall>j < length (antecedents ! i).
        antecedents ! i ! j < int i
        \<or> (antecedent_scores ! i ! 0 = Fin 0 \<and> antecedent_scores ! i ! Suc j = NInf)"
    and run: "get_predicted_antecedents antecedents antecedent_scores = Inr preds" by blast+
  have nth: "preds ! i = - 1 \<or> preds ! i < int i" if "i < length preds" for i
    using earlier_or_masked_predictions[OF slots run that] .
  then have earlier: "\<forall>k < length preds. preds ! k < int k" by force
  from nth show "\<forall>i < length preds. preds ! i = - 1 \<or> preds ! i < int i" by blast
  show "get_predicted_clusters mention_starts mention_ends preds \<noteq> Inl AssertionError"
    by (rule get_predicted_clusters_no_assert[OF earlier])
  show "\<exists>r. get_predicted_clusters mention_starts mention_ends preds = Inr r
           \<and> decode mention_starts mention_ends antecedents antecedent_scores = Inr r"
    if "length preds \<le> length mention_starts \<and> length preds \<le> length mention_ends"
  proof -
    from that get_predicted_clusters_total[OF earlier, of mention_starts mention_ends]
    obtain r where "get_predicted_clusters mention_starts mention_ends preds = Inr r" by blast
    with run show ?thesis by (simp add: decode_def ebind_def)
  qed
  show "acyclic {(i, nat (preds ! i)) | i. i < length preds \<and> 0 \<le> preds ! i}"
    by (rule earlier_acyclic[OF earlier])
next
  assume hyp: "get_antecedent_scores ops use_metadata use_features mention_emb mention_scores antecedents
           antecedents_len mention_speaker_ids genre_emb = Inr antecedent_scores
        \<and> length antecedents = length mention_emb
        \<and> length mention_scores = length mention_emb
        \<and> length antecedents_len = length mention_emb
        \<and> (\<forall>row \<in> set antecedents. length row = shape1 antecedents)
        \<and> (\<forall>row \<in> set antecedents. \<forall>a \<in> set row. 0 \<le> a \<and> a < int (length mention_emb))
        \<and> (\<forall>t. length (ffnn ops t) = length t \<and> (\<forall>i < length t. length (ffnn ops t ! i) = length (t ! i)))
        \<and> (\<forall>i < length antecedents. \<forall>j < length (antecedents ! i).
               int j < antecedents_len ! i \<longrightarrow> antecedents ! i ! j < int i)"
  then have run: "get_antecedent_scores ops use_metadata use_features mention_emb mention_scores antecedents
           antecedents_len mention_speaker_ids genre_emb = Inr antecedent_scores"
    and n: "length antecedents = length mention_emb" "length mention_scores = length mention_emb"
      "length antecedents_len = length mention_emb"
    and width: "\<forall>row \<in> set antecedents. length row = shape1 antecedents"
    and range: "\<forall>row \<in> set antecedents. \<forall>a \<in> set row. 0 \<le> a \<and> a < int (length mention_emb)"
    and net: "\<forall>t. length (ffnn ops t) = length t \<and> (\<forall>i < length t. length (ffnn ops t ! i) = length (t ! i))"
    and cands: "\<forall>i < length antecedents. \<forall>j < length (antecedents ! i).
               int j < antecedents_len ! i \<longrightarrow> antecedents ! i ! j < int i"
    by blast+
  note masked = antecedent_scores_masked[OF run n width range net]
  have rowlen: "length (antecedents ! i) = shape1 antecedents" if "i < length antecedents" for i
    using width that by simp
  show "\<forall>i < length antecedents. \<forall>j < length (antecedents ! i).
               antecedents ! i ! j < int i
               \<or> (antecedent_scores ! i ! 0 = Fin 0 \<and> antecedent_scores ! i ! Suc j = NInf)"
  proof (intro allI impI)
    fix i j assume i: "i < length antecedents" and j: "j < length (antecedents ! i)"
    show "antecedents ! i ! j < int i
               \<or> (antecedent_scores ! i ! 0 = Fin 0 \<and> antecedent_scores ! i ! Suc j = NInf)"
    proof (cases "int j < antecedents_len ! i")
      case True
      with cands i j show ?thesis by blast
    next
      case False
      from i n(1) have i': "i < length mention_emb" by simp
      from j rowlen[OF i] have "j < shape1 antecedents" by simp
      with masked i' False show ?thesis by blast
    qed
  qed
  have "\<forall>i < length antecedents. length (antecedent_scores ! i) = length (antecedents ! i) + 1"
    using masked n(1) rowlen by simp
  moreover have "length antecedent_scores = length antecedents"
    using masked n(1) by simp
  ultimately obtain preds where p: "get_predicted_antecedents antecedents antecedent_scores = Inr preds"
    using pipeline_predictions_returned by blast
  from predicted_antecedents_length[OF p] masked
  show "\<exists>preds. get_predicted_antecedents antecedents antecedent_scores = Inr preds
                  \<and> length preds = length mention_emb"
    using p by simp
qed

theorem predicted_antecedents_earlier_witness:
  "get_antecedent_scores scenario_ops True True [[0, 0], [2, 2]] [1, 1] [[0], [0]] [0, 1] [0, 0] [7]
     = Inr [[Fin 0, NInf], [Fin 0, Fin 15]]
   \<and> get_predicted_antecedents [[0], [0]] [[Fin 0, NInf], [Fin 0, Fin 15]] = Inr [- 1, 0]
   \<and> get_predicted_clusters [0, 2] [0, 2] [- 1, 0] \<noteq> Inl AssertionError
   \<and> acyclic {(i, nat ([- 1, 0 :: int] ! i)) | i. i < length [- 1, 0 :: int] \<and> 0 \<le> [- 1, 0 :: int] ! i}"
proof -
  have scores: "get_antecedent_scores scenario_ops True True [[0, 0], [2, 2]] [1, 1] [[0], [0]] [0, 1] [0, 0] [7]
     = Inr [[Fin 0, NInf], [Fin 0, Fin 15]]"
    by (rule scenario_scores)
  have run: "get_predicted_antecedents [[0], [0]] [[Fin 0, NInf], [Fin 0, Fin 15]] = Inr [- 1, 0]"
    by (simp add: get_predicted_antecedents_def ebind_def np_argmax_def np_get2_def np_get_def)
  have pipeline: "get_antecedent_scores scenario_ops True True [[0, 0], [2, 2]] [1, 1] [[0], [0]] [0, 1] [0, 0] [7]
           = Inr [[Fin 0, NInf], [Fin 0, Fin 15]]
        \<and> length [[0], [0 :: int]] = length [[0, 0], [2, 2 :: real]]
        \<and> length [1, 1 :: real] = length [[0, 0], [2, 2 :: real]]
        \<and> length [0, 1 :: int] = length [[0, 0], [2, 2 :: real]]
        \<and> (\<forall>row \<in> set [[0], [0 :: int]]. length row = shape1 [[0], [0 :: int]])
        \<and> (\<forall>row \<in> set [[0], [0 :: int]]. \<forall>a \<in> set row. 0 \<le> a \<and> a < int (length [[0, 0], [2, 2 :: real]]))
        \<and> (\<forall>t. length (ffnn scenario_ops t) = length t
               \<and> (\<forall>i < length t. length (ffnn scenario_ops t ! i) = length (t ! i)))
        \<and> (\<forall>i < length [[0], [0 :: int]]. \<forall>j < length ([[0], [0 :: int]] ! i).
               int j < [0, 1] ! i \<longrightarrow> [[0], [0]] ! i ! j < int i)"
    using scores by (simp add: shape1_def scenario_ops_def nth_Cons' All_less_Suc)
  from predicted_antecedents_earlier[THEN conjunct2, rule_format, OF pipeline]
  have slots: "\<forall>i < length [[0], [0 :: int]]. \<forall>j < length ([[0], [0 :: int]] ! i).
               [[0], [0]] ! i ! j < int i
               \<or> ([[Fin 0, NInf], [Fin 0, Fin 15]] ! i ! 0 = Fin 0 \<and> [[Fin 0, NInf], [Fin 0, Fin 15]] ! i ! Suc j = NInf)"
    by (rule conjunct1)
  from predicted_antecedents_earlier[where mention_starts = "[0, 2]" and mention_ends = "[0, 2]",
      THEN conjunct1, rule_format, OF conjI[OF slots run]]
  have "get_predicted_clusters [0, 2] [0, 2] [- 1, 0] \<noteq> Inl AssertionError"
    and "acyclic {(i, nat ([- 1, 0 :: int] ! i)) | i. i < length [- 1, 0 :: int] \<and> 0 \<le> [- 1, 0 :: int] ! i}"
    by blast+
  with scores run show ?thesis by blast
qed

text \<open>
  Claim C2, amended.  The decode is greedy per mention: the prediction of mention \<open>i\<close>
  is read off the highest-scoring slot of its score row, \<open>-1\<close> for slot 0 ("no
  antecedent") and the candidate of the slot otherwise.  For distinct spans and
  predictions that point strictly backwards the decode returns; a mention without
  predicted antecedent is skipped and enters a cluster only as the antecedent of a
  later mention; every other mention joins the cluster of its predicted antecedent.
  The mentions that have an antecedent or are one appear in exactly one cluster,
  exactly once; a mention that neither has nor is an antecedent appears in none; and
  the returned mapping sends exactly the clustered mentions to the cluster that holds
  them.
\<close>

theorem decode_greedy_clusters:
  assumes run: "get_predicted_antecedents antecedents antecedent_scores = Inr preds"
    and ok: "decodable mention_starts mention_ends preds"
  shows "(\<forall>i < length preds. \<exists>a. highest_scoring_slot (antecedent_scores ! i) a
            \<and> preds ! i = (if a = 0 then - 1 else antecedents ! i ! (a - 1)))
    \<and> (\<exists>pcs d. decode mention_starts mention_ends antecedents antecedent_scores = Inr (pcs, d)
        \<and> distinct (concat pcs)
        \<and> set (concat pcs) = linked mention_starts mention_ends preds (length preds)
        \<and> (\<forall>i < length preds. 0 \<le> preds ! i \<longrightarrow>
              (\<exists>c \<in> set pcs. mention_at mention_starts mention_ends i \<in> set c
                  \<and> mention_at mention_starts mention_ends (nat (preds ! i)) \<in> set c))
        \<and> (\<forall>i < length preds. preds ! i < 0 \<and> (\<forall>k < length preds. preds ! k \<noteq> int i) \<longrightarrow>
              mention_at mention_starts mention_ends i \<notin> set (concat pcs))
        \<and> fst ` set d = set (concat pcs)
        \<and> (\<forall>(m, c) \<in> set d. c \<in> set pcs \<and> m \<in> set c))"
proof
  show "\<forall>i < length preds. \<exists>a. highest_scoring_slot (antecedent_scores ! i) a
            \<and> preds ! i = (if a = 0 then - 1 else antecedents ! i ! (a - 1))"
  proof (intro allI impI)
    fix i assume "i < length preds"
    from predicted_antecedents_argmax[OF run this] obtain a
      where am: "np_argmax (antecedent_scores ! i) = Inr a"
        and sel: "(a = 0 \<and> preds ! i = - 1) \<or> (0 < a \<and> preds ! i = antecedents ! i ! (a - 1))"
      by blast
    from sel have "preds ! i = (if a = 0 then - 1 else antecedents ! i ! (a - 1))" by auto
    with np_argmax_highest[OF am]
    show "\<exists>a. highest_scoring_slot (antecedent_scores ! i) a
            \<and> preds ! i = (if a = 0 then - 1 else antecedents ! i ! (a - 1))" by blast
  qed
next
  have "decode mention_starts mention_ends antecedents antecedent_scores
      = get_predicted_clusters mention_starts mention_ends preds"
    using run by (simp add: decode_def ebind_def)
  with clusters_cover_linked[OF ok]
  show "\<exists>pcs d. decode mention_starts mention_ends antecedents antecedent_scores = Inr (pcs, d)
        \<and> distinct (concat pcs)
        \<and> set (concat pcs) = linked mention_starts mention_ends preds (length preds)
        \<and> (\<forall>i < length preds. 0 \<le> preds ! i \<longrightarrow>
              (\<exists>c \<in> set pcs. mention_at mention_starts mention_ends i \<in> set c
                  \<and> mention_at mention_starts mention_ends (nat (preds ! i)) \<in> set c))
        \<and> (\<forall>i < length preds. preds ! i < 0 \<and> (\<forall>k < length preds. preds ! k \<noteq> int i) \<longrightarrow>
              mention_at mention_starts mention_ends i \<notin> set (concat pcs))
        \<and> fst ` set d = set (concat pcs)
        \<and> (\<forall>(m, c) \<in> set d. c \<in> set pcs \<and> m \<in> set c)"
    by simp
qed

theorem decode_greedy_clusters_witness:
  "get_predicted_antecedents [[0, 0], [0, 0], [0, 1]]
       [[Fin 0, NInf, NInf], [Fin 0, Fin 3, NInf], [Fin 0, Fin (- 1), Fin (- 2)]] = Inr [- 1, 0, - 1]
   \<and> decodable [0, 2, 5] [0, 2, 6] [- 1, 0, - 1]
   \<and> decode [0, 2, 5] [0, 2, 6] [[0, 0], [0, 0], [0, 1]]
       [[Fin 0, NInf, NInf], [Fin 0, Fin 3, NInf], [Fin 0, Fin (- 1), Fin (- 2)]]
       = Inr ([[(0, 0), (2, 2)]], [((0, 0), [(0, 0), (2, 2)]), ((2, 2), [(0, 0), (2, 2)])])"
proof -
  have run: "get_predicted_antecedents [[0, 0], [0, 0], [0, 1]]
       [[Fin 0, NInf, NInf], [Fin 0, Fin 3, NInf], [Fin 0, Fin (- 1), Fin (- 2)]] = Inr [- 1, 0, - 1]"
    by (simp add: get_predicted_antecedents_def ebind_def np_argmax_def np_get2_def np_get_def)
  have ok: "decodable [0, 2, 5] [0, 2, 6] [- 1, 0, - 1]"
    by (simp add: decodable_def nth_Cons' All_less_Suc)
  have clusters: "get_predicted_clusters [0, 2, 5] [0, 2, 6] [- 1, 0, - 1]
       = Inr ([[(0, 0), (2, 2)]], [((0, 0), [(0, 0), (2, 2)]), ((2, 2), [(0, 0), (2, 2)])])"
    by (simp add: get_predicted_clusters_def ebind_def np_get_def Let_def)
  from decode_greedy_clusters[OF run ok, THEN conjunct2] obtain pcs d
    where dec: "decode [0, 2, 5] [0, 2, 6] [[0, 0], [0, 0], [0, 1]]
       [[Fin 0, NInf, NInf], [Fin 0, Fin 3, NInf], [Fin 0, Fin (- 1), Fin (- 2)]] = Inr (pcs, d)"
    by (elim exE conjE) (rule that)
  moreover from dec run clusters
  have "pcs = [[(0, 0), (2, 2)]]" "d = [((0, 0), [(0, 0), (2, 2)]), ((2, 2), [(0, 0), (2, 2)])]"
    by (simp_all add: decode_def ebind_def)
  ultimately have "decode [0, 2, 5] [0, 2, 6] [[0, 0], [0, 0], [0, 1]]
       [[Fin 0, NInf, NInf], [Fin 0, Fin 3, NInf], [Fin 0, Fin (- 1), Fin (- 2)]]
       = Inr ([[(0, 0), (2, 2)]], [((0, 0), [(0, 0), (2, 2)]), ((2, 2), [(0, 0), (2, 2)])])"
    by simp
  with run ok show ?thesis by simp
qed

end
